theory Spec2Isabelle
  imports Main
begin

section \<open>Machine integers and durations\<close>

text \<open>
  Go's \<^verbatim>\<open>int\<close> (on a 64-bit platform), \<^verbatim>\<open>int64\<close> and \<^verbatim>\<open>time.Duration\<close>
  (nanoseconds) are 64-bit two's-complement integers whose arithmetic wraps around silently. They are modelled as
  \<^typ>\<open>int\<close>; every operation of the source that can leave the 64-bit range has its
  wrap-around written out with \<open>wrap64\<close>. Counters that move by one per call are kept
  as plain integers: they would need \<open>2 ^ 63\<close> calls to wrap.
\<close>

type_synonym Duration = int

definition in_int64 :: "int \<Rightarrow> bool" where
  "in_int64 x = (- (2 ^ 63) \<le> x \<and> x < 2 ^ 63)"

definition wrap64 :: "int \<Rightarrow> int" where
  "wrap64 x = (x + 2 ^ 63) mod 2 ^ 64 - 2 ^ 63"

text \<open>Go's integer division truncates towards zero.\<close>

definition quo64 :: "int \<Rightarrow> int \<Rightarrow> int" where
  "quo64 a b = wrap64 (sgn a * sgn b * (\<bar>a\<bar> div \<bar>b\<bar>))"

section \<open>Backoff strategies (Retry)\<close>

text \<open>
  \<^verbatim>\<open>BackoffStrategy\<close> is an interface with the single method \<^verbatim>\<open>GetDelay(attempt int)\<close>.
  Its three implementations of the source are the first three constructors; a caller's own
  implementation is \<open>CustomBackoff\<close>.
\<close>

datatype BackoffStrategy =
    FixedBackoff (Delay: Duration)
  | ExponentialBackoff (BaseDelay: Duration) (MaxDelay: Duration)
  | LinearBackoff (BaseDelay: Duration) (MaxDelay: Duration)
  | CustomBackoff "int \<Rightarrow> Duration"

text \<open>
  The loop of \<^verbatim>\<open>ExponentialBackoff.GetDelay\<close>:
  \<^verbatim>\<open>for i := 0; i < attempt; i++ { delay *= 2; if delay > b.MaxDelay { delay = b.MaxDelay } }\<close>
\<close>

function exponential_loop :: "Duration \<Rightarrow> int \<Rightarrow> int \<Rightarrow> Duration \<Rightarrow> Duration" where
  "exponential_loop maxDelay attempt i delay =
     (if i < attempt
      then (let doubled = wrap64 (delay * 2)
            in exponential_loop maxDelay attempt (i + 1)
                 (if doubled > maxDelay then maxDelay else doubled))
      else delay)"
  by pat_completeness auto
termination
  by (relation "measure (\<lambda>(maxDelay, attempt, i, delay). nat (attempt - i))") auto

declare exponential_loop.simps [simp del]

fun GetDelay :: "BackoffStrategy \<Rightarrow> int \<Rightarrow> Duration" where
  "GetDelay (FixedBackoff d) attempt = d"
| "GetDelay (ExponentialBackoff base maxDelay) attempt =
     exponential_loop maxDelay attempt 0 base"
| "GetDelay (LinearBackoff base maxDelay) attempt =
     (let delay = wrap64 (base * wrap64 (attempt + 1))
      in if delay > maxDelay then maxDelay else delay)"
| "GetDelay (CustomBackoff f) attempt = f attempt"


section \<open>Retry\<close>

text \<open>
  The wrapped closure \<^verbatim>\<open>fn func() error\<close> is modelled by the results of its successive
  invocations: \<open>f k\<close> is what the \<open>k\<close>-th invocation (counted from 0) returns, \<open>None\<close>
  for \<^verbatim>\<open>nil\<close>. \<^verbatim>\<open>Execute\<close> returns its error together with the number of invocations it
  made and the durations it passed to \<^verbatim>\<open>time.Sleep\<close>, in order.
  The \<^verbatim>\<open>executor\<close> field is used by \<^verbatim>\<open>ExecuteAsync\<close> only and is left out.
\<close>

record Retry =
  maxAttempts :: int
  delay :: Duration
  backoff :: BackoffStrategy

definition NewRetry :: "int \<Rightarrow> Duration \<Rightarrow> BackoffStrategy option \<Rightarrow> Retry" where
  "NewRetry n d b =
     \<lparr>maxAttempts = n, delay = d,
      backoff = (case b of None \<Rightarrow> FixedBackoff d | Some strategy \<Rightarrow> strategy)\<rparr>"

text \<open>\<^verbatim>\<open>fmt.Errorf("retry failed after %d attempts: %w", r.maxAttempts, lastErr)\<close>\<close>

datatype 'e RetryError = RetryFailed (attempts: int) (wrapped: "'e option")

text \<open>
  The loop \<^verbatim>\<open>for attempt := 0; attempt < r.maxAttempts; attempt++\<close>. Inside the loop
  \<open>0 \<le> attempt < maxAttempts\<close>, so neither \<^verbatim>\<open>attempt++\<close> nor \<^verbatim>\<open>r.maxAttempts-1\<close> can
  leave the 64-bit range.
\<close>

function Execute_loop ::
  "Retry \<Rightarrow> (nat \<Rightarrow> 'e option) \<Rightarrow> int \<Rightarrow> 'e option \<Rightarrow> nat \<Rightarrow> Duration list
     \<Rightarrow> 'e RetryError option \<times> nat \<times> Duration list" where
  "Execute_loop r f attempt lastErr calls sleeps =
     (if attempt < maxAttempts r
      then (case f calls of
              None \<Rightarrow> (None, Suc calls, sleeps)
            | Some err \<Rightarrow>
                Execute_loop r f (attempt + 1) (Some err) (Suc calls)
                  (if attempt < maxAttempts r - 1
                   then sleeps @ [GetDelay (backoff r) attempt]
                   else sleeps))
      else (Some (RetryFailed (maxAttempts r) lastErr), calls, sleeps))"
  by pat_completeness auto
termination
  by (relation "measure (\<lambda>(r, f, attempt, lastErr, calls, sleeps). nat (maxAttempts r - attempt))")
    auto

declare Execute_loop.simps [simp del]

definition Retry_Execute ::
  "Retry \<Rightarrow> (nat \<Rightarrow> 'e option) \<Rightarrow> 'e RetryError option \<times> nat \<times> Duration list" where
  "Retry_Execute r f = Execute_loop r f 0 None 0 []"

section \<open>Circuit breaker\<close>

text \<open>
  Instants are nanoseconds on one time axis; the zero \<^verbatim>\<open>time.Time\<close> is 0.
  \<^verbatim>\<open>time.Since(t)\<close> is \<^verbatim>\<open>time.Now().Sub(t)\<close>, and \<^verbatim>\<open>Sub\<close> saturates at the largest and
  smallest \<^verbatim>\<open>Duration\<close>.
\<close>

type_synonym Time = int

definition time_Sub :: "Time \<Rightarrow> Time \<Rightarrow> Duration" where
  "time_Sub t u =
     (let d = t - u
      in if d < - (2 ^ 63) then - (2 ^ 63) else if 2 ^ 63 \<le> d then 2 ^ 63 - 1 else d)"

definition time_Since :: "Time \<Rightarrow> Time \<Rightarrow> Duration" where
  "time_Since now t = time_Sub now t"

datatype CircuitState = StateClosed | StateOpen | StateHalfOpen

record CircuitBreaker =
  failureCount :: int
  successCount :: int
  maxFailures :: int
  resetTimeout :: Duration
  state :: CircuitState
  lastFailureTime :: Time

definition NewCircuitBreaker :: "int \<Rightarrow> Duration \<Rightarrow> CircuitBreaker" where
  "NewCircuitBreaker maxF timeout =
     \<lparr>failureCount = 0, successCount = 0, maxFailures = maxF, resetTimeout = timeout,
      state = StateClosed, lastFailureTime = 0\<rparr>"

text \<open>
  \<^verbatim>\<open>Execute\<close> has two parts around the call of \<^verbatim>\<open>fn\<close>. The first is the \<^verbatim>\<open>switch\<close>
  on the state: \<open>None\<close> is the early return of the "circuit breaker is open" error, otherwise
  the breaker as it stands when \<^verbatim>\<open>fn\<close> is called.
\<close>

definition Execute_admit :: "CircuitBreaker \<Rightarrow> Time \<Rightarrow> CircuitBreaker option" where
  "Execute_admit cb now =
     (case state cb of
        StateOpen \<Rightarrow>
          if time_Since now (lastFailureTime cb) > resetTimeout cb
          then Some (cb\<lparr>state := StateHalfOpen\<rparr>)
          else None
      | StateHalfOpen \<Rightarrow> Some cb
      | StateClosed \<Rightarrow> Some cb)"

text \<open>The second part records the result \<open>err\<close> of \<^verbatim>\<open>fn\<close>; \<open>now\<close> is \<^verbatim>\<open>time.Now()\<close> then.\<close>

definition Execute_record :: "CircuitBreaker \<Rightarrow> 'e option \<Rightarrow> Time \<Rightarrow> CircuitBreaker" where
  "Execute_record cb err now =
     (case err of
        Some e \<Rightarrow>
          (let cb1 = cb\<lparr>failureCount := failureCount cb + 1, lastFailureTime := now\<rparr>
           in if failureCount cb1 \<ge> maxFailures cb1 then cb1\<lparr>state := StateOpen\<rparr> else cb1)
      | None \<Rightarrow>
          (let cb1 = cb\<lparr>successCount := successCount cb + 1\<rparr>
           in if state cb1 = StateHalfOpen
              then cb1\<lparr>state := StateClosed, failureCount := 0\<rparr>
              else cb1))"

datatype 'e BreakerError = CircuitOpen | FnError 'e

text \<open>
  One call of \<^verbatim>\<open>Execute\<close>: the instant it is entered, what \<^verbatim>\<open>fn\<close> returns if it is
  invoked, and the instant \<^verbatim>\<open>fn\<close> has returned.
\<close>

record 'e Call =
  entered :: Time
  fn_result :: "'e option"
  finished :: Time

text \<open>The result: the breaker, the returned error, and how often \<^verbatim>\<open>fn\<close> was invoked.\<close>

definition CircuitBreaker_Execute ::
  "CircuitBreaker \<Rightarrow> 'e Call \<Rightarrow> CircuitBreaker \<times> 'e BreakerError option \<times> nat" where
  "CircuitBreaker_Execute cb c =
     (case Execute_admit cb (entered c) of
        None \<Rightarrow> (cb, Some CircuitOpen, 0)
      | Some cb1 \<Rightarrow>
          (Execute_record cb1 (fn_result c) (finished c), map_option FnError (fn_result c), 1))"


fun run_calls :: "CircuitBreaker \<Rightarrow> 'e Call list \<Rightarrow> CircuitBreaker" where
  "run_calls cb [] = cb"
| "run_calls cb (c # cs) = run_calls (fst (CircuitBreaker_Execute cb c)) cs"

definition failures :: "'e Call list \<Rightarrow> nat" where
  "failures cs = length (filter (\<lambda>c. fn_result c \<noteq> None) cs)"




text \<open>
  The spec's wording for claim C3, to compare with the code: the longest run of consecutive
  failed calls in a sequence of call results.
\<close>

fun failure_runs :: "nat \<Rightarrow> nat \<Rightarrow> 'e option list \<Rightarrow> nat" where
  "failure_runs cur best [] = max cur best"
| "failure_runs cur best (None # rs) = failure_runs 0 (max cur best) rs"
| "failure_runs cur best (Some e # rs) = failure_runs (Suc cur) best rs"

definition longest_failure_run :: "'e option list \<Rightarrow> nat" where
  "longest_failure_run rs = failure_runs 0 0 rs"

section \<open>Panics and channels of the Go runtime\<close>

text \<open>
  The values a goroutine can panic with: the runtime's own panics that the modelled code
  can raise, and a value passed to \<^verbatim>\<open>panic\<close> by a caller's function. The module is built
  with go 1.23, where \<^verbatim>\<open>panic(nil)\<close> raises a non-nil \<^verbatim>\<open>*runtime.PanicNilError\<close>, so
  \<^verbatim>\<open>recover()\<close> returns \<^verbatim>\<open>nil\<close> only when the goroutine is not panicking.
\<close>

datatype panic =
    SendOnClosedChannel
  | CloseOfClosedChannel
  | MakechanSizeOutOfRange
  | IntegerDivideByZero
  | NonPositiveTickerInterval
  | NilPointerDereference
  | PanicValue string

text \<open>What a step of a goroutine does: it finishes, panics, or blocks.\<close>

datatype 'a go = Ok 'a | Panic panic | Blocked

text \<open>
  A channel: its buffer (oldest element first), its capacity, whether it is closed, and the
  number of goroutines parked in a receive on it. No sender is ever parked on the channels
  modelled here: every send of the source on them is either the \<^verbatim>\<open>case\<close> of a \<^verbatim>\<open>select\<close>
  with a \<^verbatim>\<open>default\<close>, or the initial filling of the token bucket.
\<close>

record 'a chan =
  buf :: "'a list"
  cap :: nat
  closed :: bool
  recvq :: nat

definition make_chan :: "int \<Rightarrow> 'a chan go" where
  "make_chan n =
     (if n < 0 then Panic MakechanSizeOutOfRange
      else Ok \<lparr>buf = [], cap = nat n, closed = False, recvq = 0\<rparr>)"

text \<open>
  \<^verbatim>\<open>ch <- v\<close>, as the runtime's \<^verbatim>\<open>chansend\<close> does it: panic on a closed channel; hand the
  value to a parked receiver if there is one; else append to the buffer if it has room;
  else block.
\<close>

definition send :: "'a chan \<Rightarrow> 'a \<Rightarrow> 'a chan go" where
  "send c v =
     (if closed c then Panic SendOnClosedChannel
      else if recvq c > 0 then Ok (c\<lparr>recvq := recvq c - 1\<rparr>)
      else if length (buf c) < cap c then Ok (c\<lparr>buf := buf c @ [v]\<rparr>)
      else Blocked)"

text \<open>
  \<^verbatim>\<open>select { case ch <- v: ... default: ... }\<close>: the boolean tells whether the send case
  was taken.
\<close>

definition send_nb :: "'a chan \<Rightarrow> 'a \<Rightarrow> (bool \<times> 'a chan) go" where
  "send_nb c v =
     (case send c v of
        Ok c' \<Rightarrow> Ok (True, c')
      | Panic p \<Rightarrow> Panic p
      | Blocked \<Rightarrow> Ok (False, c))"

text \<open>
  \<^verbatim>\<open>select { case <-ch: ... default: ... }\<close>: \<open>Some (Some v)\<close> is a received element,
  \<open>Some None\<close> the zero value of a closed and drained channel, \<open>None\<close> the default case.
\<close>

definition recv_nb :: "'a chan \<Rightarrow> 'a option option \<times> 'a chan" where
  "recv_nb c =
     (case buf c of
        v # rest \<Rightarrow> (Some (Some v), c\<lparr>buf := rest\<rparr>)
      | [] \<Rightarrow> if closed c then (Some None, c) else (None, c))"

text \<open>A blocking receive: as above, but the goroutine parks where the default would be taken.\<close>

definition recv_or_park :: "'a chan \<Rightarrow> 'a option option \<times> 'a chan" where
  "recv_or_park c =
     (case recv_nb c of
        (Some r, c') \<Rightarrow> (Some r, c')
      | (None, c') \<Rightarrow> (None, c'\<lparr>recvq := recvq c' + 1\<rparr>))"

text \<open>\<^verbatim>\<open>close(ch)\<close>: parked receivers are woken with the zero value.\<close>

definition close_chan :: "'a chan \<Rightarrow> 'a chan go" where
  "close_chan c =
     (if closed c then Panic CloseOfClosedChannel else Ok (c\<lparr>closed := True, recvq := 0\<rparr>))"

text \<open>
  What every channel made by \<open>make_chan\<close> satisfies after any of the operations above:
  the buffer is within the capacity, and no receiver is parked while the buffer holds an
  element.
\<close>

definition chan_ok :: "'a chan \<Rightarrow> bool" where
  "chan_ok c = (length (buf c) \<le> cap c \<and> (recvq c = 0 \<or> buf c = []))"

section \<open>Safe executor\<close>

record Stats =
  TotalGoroutines :: int
  ActiveGoroutines :: int
  PanicCount :: int
  CompletedCount :: int
  LastPanicTime :: Time
  LastPanicGoroutine :: string

definition zero_Stats :: Stats where
  "zero_Stats =
     \<lparr>TotalGoroutines = 0, ActiveGoroutines = 0, PanicCount = 0, CompletedCount = 0,
      LastPanicTime = 0, LastPanicGoroutine = []\<rparr>"

text \<open>
  The calls the executor makes on its \<^verbatim>\<open>Logger\<close>, by their format string. A logger and a
  recovery handler are caller's code: all the executor depends on is whether a call returns
  (\<open>None\<close>) or panics (\<open>Some p\<close>).
\<close>

datatype LogCall =
    Errorf_panic_recovered panic
  | Errorf_goroutine_id string
  | Errorf_stack_trace string
  | Warnf_cancelled

type_synonym Logger = "LogCall \<Rightarrow> panic option"

type_synonym RecoverHandler = "panic \<Rightarrow> string \<Rightarrow> string \<Rightarrow> panic option"

definition DefaultLogger :: Logger where
  "DefaultLogger call = None"

definition defaultRecoverHandler :: RecoverHandler where
  "defaultRecoverHandler panicValue stack goroutineID = None"

text \<open>
  The executor, with two fields that record what it did: the calls made on the logger and
  the arguments of every call of a recovery handler, oldest first.
\<close>

record SafeExecutor =
  recoverHandler :: "RecoverHandler option"
  logger :: "Logger option"
  stats :: Stats
  logged :: "LogCall list"
  handlerCalls :: "(panic \<times> string \<times> string) list"

definition NewSafeExecutor :: SafeExecutor where
  "NewSafeExecutor =
     \<lparr>recoverHandler = Some defaultRecoverHandler, logger = Some DefaultLogger,
      stats = zero_Stats, logged = [], handlerCalls = []\<rparr>"

definition SetRecoverHandler :: "SafeExecutor \<Rightarrow> RecoverHandler option \<Rightarrow> SafeExecutor" where
  "SetRecoverHandler se handler = se\<lparr>recoverHandler := handler\<rparr>"

definition SetLogger :: "SafeExecutor \<Rightarrow> Logger option \<Rightarrow> SafeExecutor" where
  "SetLogger se l = se\<lparr>logger := l\<rparr>"

definition GetStats :: "SafeExecutor \<Rightarrow> Stats" where
  "GetStats se = stats se"

definition ResetStats :: "SafeExecutor \<Rightarrow> SafeExecutor" where
  "ResetStats se = se\<lparr>stats := zero_Stats\<rparr>"

text \<open>What the runtime tells a goroutine that handles a panic.\<close>

record RuntimeEnv =
  time_Now :: Time
  runtime_Stack :: string
  debug_Stack :: string

text \<open>
  \<^verbatim>\<open>getGoroutineID\<close> reads the first 64 bytes of \<^verbatim>\<open>runtime.Stack\<close> and returns them up to
  the first space, or "unknown" when there is none.
\<close>

definition getGoroutineID :: "RuntimeEnv \<Rightarrow> string" where
  "getGoroutineID env =
     (let idField = take 64 (runtime_Stack env)
      in if CHR '' '' \<in> set idField
         then takeWhile (\<lambda>ch. ch \<noteq> CHR '' '') idField
         else ''unknown'')"

text \<open>
  A method call on the logger: it is recorded, and it panics when the logger does or when
  the logger is \<^verbatim>\<open>nil\<close>. A state paired with \<open>Some p\<close> is a goroutine panicking with \<open>p\<close>.
\<close>

definition call_logger :: "SafeExecutor \<Rightarrow> Logger option \<Rightarrow> LogCall \<Rightarrow> SafeExecutor \<times> panic option" where
  "call_logger se l call =
     (case l of
        None \<Rightarrow> (se, Some NilPointerDereference)
      | Some lg \<Rightarrow> (se\<lparr>logged := logged se @ [call]\<rparr>, lg call))"

definition and_then ::
  "SafeExecutor \<times> panic option \<Rightarrow> (SafeExecutor \<Rightarrow> SafeExecutor \<times> panic option)
     \<Rightarrow> SafeExecutor \<times> panic option" where
  "and_then r k = (case r of (se, None) \<Rightarrow> k se | (se, Some p) \<Rightarrow> (se, Some p))"

definition call_handler ::
  "SafeExecutor \<Rightarrow> RecoverHandler option \<Rightarrow> panic \<Rightarrow> string \<Rightarrow> string
     \<Rightarrow> SafeExecutor \<times> panic option" where
  "call_handler se h panicValue stack goroutineID =
     (case h of
        None \<Rightarrow> (se, None)
      | Some handler \<Rightarrow>
          (se\<lparr>handlerCalls := handlerCalls se @ [(panicValue, stack, goroutineID)]\<rparr>,
           handler panicValue stack goroutineID))"

definition handlePanic ::
  "SafeExecutor \<Rightarrow> panic \<Rightarrow> RecoverHandler option \<Rightarrow> Logger option \<Rightarrow> RuntimeEnv
     \<Rightarrow> SafeExecutor \<times> panic option" where
  "handlePanic se panicValue h l env =
     (let se1 = se\<lparr>stats := (stats se)
                   \<lparr>PanicCount := PanicCount (stats se) + 1,
                    LastPanicTime := time_Now env,
                    LastPanicGoroutine := getGoroutineID env\<rparr>\<rparr>;
          stack = debug_Stack env;
          goroutineID = getGoroutineID env
      in and_then (call_logger se1 l (Errorf_panic_recovered panicValue)) (\<lambda>se2.
         and_then (call_logger se2 l (Errorf_goroutine_id goroutineID)) (\<lambda>se3.
         and_then (call_logger se3 l (Errorf_stack_trace stack)) (\<lambda>se4.
         call_handler se4 h panicValue stack goroutineID))))"

text \<open>
  \<^verbatim>\<open>GoWithContext\<close> before the \<^verbatim>\<open>go\<close> statement: it reads the handler and the logger (the
  goroutine keeps these two, whatever is set later) and counts the goroutine.
\<close>

definition GoWithContext_spawn ::
  "SafeExecutor \<Rightarrow> SafeExecutor \<times> RecoverHandler option \<times> Logger option" where
  "GoWithContext_spawn se =
     (se\<lparr>stats := (stats se)
            \<lparr>TotalGoroutines := TotalGoroutines (stats se) + 1,
             ActiveGoroutines := ActiveGoroutines (stats se) + 1\<rparr>\<rparr>,
      recoverHandler se, logger se)"

text \<open>What the function given to the executor does when it is run.\<close>

datatype FnOutcome = Returns | Panics panic

text \<open>
  The body of the goroutine up to its deferred function: the check of the context
  (\<open>ctx_done\<close> tells whether \<^verbatim>\<open>ctx.Done()\<close> is closed then), and \<^verbatim>\<open>fn()\<close>.
\<close>

definition goroutine_body ::
  "SafeExecutor \<Rightarrow> Logger option \<Rightarrow> bool \<Rightarrow> FnOutcome \<Rightarrow> SafeExecutor \<times> panic option" where
  "goroutine_body se l ctx_done f =
     (if ctx_done then call_logger se l Warnf_cancelled
      else (se, case f of Returns \<Rightarrow> None | Panics p \<Rightarrow> Some p))"

text \<open>
  \<^verbatim>\<open>recover()\<close> in a deferred function returns the value the goroutine is panicking with
  and stops the panic.
\<close>

definition recover :: "panic option \<Rightarrow> panic option \<times> panic option" where
  "recover panicking = (panicking, None)"

text \<open>The deferred function, in its two critical sections.\<close>

definition deferred_decrement :: "SafeExecutor \<Rightarrow> SafeExecutor" where
  "deferred_decrement se =
     se\<lparr>stats := (stats se)\<lparr>ActiveGoroutines := ActiveGoroutines (stats se) - 1\<rparr>\<rparr>"

definition deferred_recover ::
  "SafeExecutor \<Rightarrow> panic option \<Rightarrow> RecoverHandler option \<Rightarrow> Logger option \<Rightarrow> RuntimeEnv
     \<Rightarrow> SafeExecutor \<times> panic option" where
  "deferred_recover se panicking h l env =
     (case recover panicking of
        (Some r, still_panicking) \<Rightarrow>
          (case handlePanic se r h l env of
             (se', None) \<Rightarrow> (se', still_panicking)
           | (se', Some p) \<Rightarrow> (se', Some p))
      | (None, still_panicking) \<Rightarrow>
          (se\<lparr>stats := (stats se)\<lparr>CompletedCount := CompletedCount (stats se) + 1\<rparr>\<rparr>,
           still_panicking))"

text \<open>
  A goroutine that returns while it is panicking takes the whole process down.
\<close>

datatype GoroutineExit = ExitsNormally | ProcessCrashes panic

definition run_goroutine ::
  "SafeExecutor \<Rightarrow> RecoverHandler option \<Rightarrow> Logger option \<Rightarrow> bool \<Rightarrow> FnOutcome \<Rightarrow> RuntimeEnv
     \<Rightarrow> SafeExecutor \<times> GoroutineExit" where
  "run_goroutine se h l ctx_done f env =
     (case goroutine_body se l ctx_done f of
        (se1, panicking) \<Rightarrow>
          (case deferred_recover (deferred_decrement se1) panicking h l env of
             (se2, None) \<Rightarrow> (se2, ExitsNormally)
           | (se2, Some p) \<Rightarrow> (se2, ProcessCrashes p)))"

text \<open>
  A whole spawn, from the call of \<^verbatim>\<open>GoWithContext\<close> to the end of the goroutine, with
  nothing else happening in between. \<^verbatim>\<open>Go\<close> passes \<^verbatim>\<open>context.Background()\<close>, which is never
  done; \<^verbatim>\<open>GoWithTimeout\<close> passes a context that its own deferred \<^verbatim>\<open>cancel\<close> may have
  cancelled already; \<^verbatim>\<open>GoWithDelay\<close> and \<^verbatim>\<open>GoWithInterval\<close> pass a function of their own
  to \<^verbatim>\<open>Go\<close>.
\<close>

definition GoWithContext ::
  "SafeExecutor \<Rightarrow> bool \<Rightarrow> FnOutcome \<Rightarrow> RuntimeEnv \<Rightarrow> SafeExecutor \<times> GoroutineExit" where
  "GoWithContext se ctx_done f env =
     (case GoWithContext_spawn se of (se1, h, l) \<Rightarrow> run_goroutine se1 h l ctx_done f env)"

definition Go :: "SafeExecutor \<Rightarrow> FnOutcome \<Rightarrow> RuntimeEnv \<Rightarrow> SafeExecutor \<times> GoroutineExit" where
  "Go se f env = GoWithContext se False f env"

definition GoWithTimeout ::
  "SafeExecutor \<Rightarrow> bool \<Rightarrow> FnOutcome \<Rightarrow> RuntimeEnv \<Rightarrow> SafeExecutor \<times> GoroutineExit" where
  "GoWithTimeout se cancelled_first f env = GoWithContext se cancelled_first f env"

definition GoWithDelay ::
  "SafeExecutor \<Rightarrow> FnOutcome \<Rightarrow> Duration \<Rightarrow> RuntimeEnv \<Rightarrow> SafeExecutor \<times> GoroutineExit" where
  "GoWithDelay se f d env = Go se f env"

text \<open>
  The executor among concurrent goroutines. Its statistics change in critical sections
  under \<^verbatim>\<open>stats.mu\<close>, so an observer sees the state between two of these steps:
  the spawn, the first critical section of a goroutine's deferred function (the decrement),
  its second one (the count of a completion or of a panic, followed by the logging and the
  handler), and \<^verbatim>\<open>ResetStats\<close>. \<open>started\<close> counts the goroutines that have not reached
  their deferred function, \<open>leaving\<close> those between its two critical sections. After a
  crash of the process nothing happens any more.
\<close>

record ExecSys =
  exec :: SafeExecutor
  started :: nat
  leaving :: nat
  crashed :: bool

datatype ExecEvent =
    EvSpawn
  | EvDeferredDecrement
  | EvDeferredRecover "panic option" "RecoverHandler option" "Logger option" RuntimeEnv
  | EvResetStats
  | EvSetRecoverHandler "RecoverHandler option"
  | EvSetLogger "Logger option"

definition exec_init :: ExecSys where
  "exec_init = \<lparr>exec = NewSafeExecutor, started = 0, leaving = 0, crashed = False\<rparr>"

fun exec_step :: "ExecSys \<Rightarrow> ExecEvent \<Rightarrow> ExecSys option" where
  "exec_step s EvSpawn =
     (if crashed s then None
      else Some (s\<lparr>exec := fst (GoWithContext_spawn (exec s)), started := Suc (started s)\<rparr>))"
| "exec_step s EvDeferredDecrement =
     (if crashed s \<or> started s = 0 then None
      else Some (s\<lparr>exec := deferred_decrement (exec s),
                   started := started s - 1, leaving := Suc (leaving s)\<rparr>))"
| "exec_step s (EvDeferredRecover panicking h l env) =
     (if crashed s \<or> leaving s = 0 then None
      else (case deferred_recover (exec s) panicking h l env of
              (se, still_panicking) \<Rightarrow>
                Some (s\<lparr>exec := se, leaving := leaving s - 1,
                        crashed := (still_panicking \<noteq> None)\<rparr>)))"
| "exec_step s EvResetStats =
     (if crashed s then None else Some (s\<lparr>exec := ResetStats (exec s)\<rparr>))"
| "exec_step s (EvSetRecoverHandler h) =
     (if crashed s then None else Some (s\<lparr>exec := SetRecoverHandler (exec s) h\<rparr>))"
| "exec_step s (EvSetLogger l) =
     (if crashed s then None else Some (s\<lparr>exec := SetLogger (exec s) l\<rparr>))"

fun exec_run :: "ExecSys \<Rightarrow> ExecEvent list \<Rightarrow> ExecSys option" where
  "exec_run s [] = Some s"
| "exec_run s (e # es) = (case exec_step s e of None \<Rightarrow> None | Some s' \<Rightarrow> exec_run s' es)"

fun is_reset :: "ExecEvent \<Rightarrow> bool" where
  "is_reset EvResetStats = True"
| "is_reset e = False"

fun is_spawn :: "ExecEvent \<Rightarrow> bool" where
  "is_spawn EvSpawn = True"
| "is_spawn e = False"

text \<open>Every \<^verbatim>\<open>ResetStats\<close> of the run happens while no spawned goroutine is still in flight.\<close>

fun resets_when_idle :: "ExecSys \<Rightarrow> ExecEvent list \<Rightarrow> bool" where
  "resets_when_idle s [] = True"
| "resets_when_idle s (e # es) =
     ((if is_reset e then started s = 0 \<and> leaving s = 0 else True) \<and>
      (case exec_step s e of None \<Rightarrow> True | Some s' \<Rightarrow> resets_when_idle s' es))"

text \<open>The number of spawns since the last \<^verbatim>\<open>ResetStats\<close>, starting from \<open>n\<close>.\<close>

fun spawned_since_reset :: "nat \<Rightarrow> ExecEvent list \<Rightarrow> nat" where
  "spawned_since_reset n [] = n"
| "spawned_since_reset n (e # es) =
     spawned_since_reset (if is_reset e then 0 else if is_spawn e then Suc n else n) es"

section \<open>Rate limiter\<close>

text \<open>
  The ticker is its period. The refill goroutine runs \<open>refill_tick\<close> at every tick; its
  spawn through the executor is the \<open>GoWithContext_spawn\<close> on the executor passed in.
\<close>

record RateLimiter =
  limit :: int
  interval :: Duration
  tokens :: "unit chan"
  ticker :: Duration

text \<open>\<^verbatim>\<open>for i := 0; i < limit; i++ { rl.tokens <- struct{}{} }\<close>\<close>

fun fill_tokens :: "unit chan \<Rightarrow> nat \<Rightarrow> unit chan go" where
  "fill_tokens c 0 = Ok c"
| "fill_tokens c (Suc n) =
     (case send c () of
        Ok c' \<Rightarrow> fill_tokens c' n
      | Panic p \<Rightarrow> Panic p
      | Blocked \<Rightarrow> Blocked)"

text \<open>
  \<^verbatim>\<open>time.NewTicker(interval / time.Duration(limit))\<close>: the division panics on a zero
  divisor, and \<^verbatim>\<open>NewTicker\<close> panics on a period that is not positive.
\<close>

definition NewTicker :: "Duration \<Rightarrow> Duration go" where
  "NewTicker d = (if d \<le> 0 then Panic NonPositiveTickerInterval else Ok d)"

definition NewRateLimiter ::
  "SafeExecutor \<Rightarrow> int \<Rightarrow> Duration \<Rightarrow> (RateLimiter \<times> SafeExecutor) go" where
  "NewRateLimiter se lim itv =
     (case make_chan lim of
        Panic p \<Rightarrow> Panic p
      | Blocked \<Rightarrow> Blocked
      | Ok c \<Rightarrow>
          (case fill_tokens c (nat lim) of
             Panic p \<Rightarrow> Panic p
           | Blocked \<Rightarrow> Blocked
           | Ok c' \<Rightarrow>
               if lim = 0 then Panic IntegerDivideByZero
               else (case NewTicker (quo64 itv lim) of
                       Panic p \<Rightarrow> Panic p
                     | Blocked \<Rightarrow> Blocked
                     | Ok t \<Rightarrow>
                         Ok (\<lparr>limit = lim, interval = itv, tokens = c', ticker = t\<rparr>,
                             fst (GoWithContext_spawn se)))))"

definition Allow :: "RateLimiter \<Rightarrow> bool \<times> RateLimiter" where
  "Allow rl =
     (case recv_nb (tokens rl) of
        (Some r, c) \<Rightarrow> (True, rl\<lparr>tokens := c\<rparr>)
      | (None, c) \<Rightarrow> (False, rl))"

text \<open>One round of the refill goroutine's loop: a send that is dropped when the bucket is full.\<close>

definition refill_tick :: "RateLimiter \<Rightarrow> RateLimiter go" where
  "refill_tick rl =
     (case send_nb (tokens rl) () of
        Ok (sent, c) \<Rightarrow> Ok (rl\<lparr>tokens := c\<rparr>)
      | Panic p \<Rightarrow> Panic p
      | Blocked \<Rightarrow> Blocked)"

definition GetAvailableTokens :: "RateLimiter \<Rightarrow> int" where
  "GetAvailableTokens rl = int (length (buf (tokens rl)))"

text \<open>\<open>k\<close> calls of \<^verbatim>\<open>Allow\<close> in a row, with no tick of the refill in between.\<close>

fun Allow_times :: "RateLimiter \<Rightarrow> nat \<Rightarrow> bool list \<times> RateLimiter" where
  "Allow_times rl 0 = ([], rl)"
| "Allow_times rl (Suc k) =
     (case Allow rl of
        (ok, rl') \<Rightarrow> (case Allow_times rl' k of (oks, rl'') \<Rightarrow> (ok # oks, rl'')))"

section \<open>Worker pool\<close>

text \<open>
  A job, as \<^verbatim>\<open>SimpleJob\<close> implements the \<^verbatim>\<open>Job\<close> interface. Its function is modelled by
  what a run of it does: it returns an error (\<open>None\<close> for \<^verbatim>\<open>nil\<close>) or it panics.
\<close>

datatype 'e JobRun = JobReturns "'e option" | JobPanics panic

record 'e SimpleJob =
  ID :: string
  Timeout :: Duration
  Fn :: "'e JobRun"

record PoolStats =
  TotalJobs :: int
  CompletedJobs :: int
  FailedJobs :: int
  ActiveWorkers :: int
  QueuedJobs :: int
  LastJobTime :: Time
  AverageJobTime :: Duration

definition zero_PoolStats :: PoolStats where
  "zero_PoolStats =
     \<lparr>TotalJobs = 0, CompletedJobs = 0, FailedJobs = 0, ActiveWorkers = 0, QueuedJobs = 0,
      LastJobTime = 0, AverageJobTime = 0\<rparr>"

record PoolConfig =
  MaxWorkers :: int
  QueueSize :: int
  WorkerTimeout :: Duration
  JobTimeout :: Duration

definition DefaultPoolConfig :: PoolConfig where
  "DefaultPoolConfig =
     \<lparr>MaxWorkers = 10, QueueSize = 1000,
      WorkerTimeout = 30 * 60 * 1000000000, JobTimeout = 5 * 60 * 1000000000\<rparr>"

text \<open>
  The pool: \<open>quit_closed\<close> tells whether the \<^verbatim>\<open>quit\<close> channel is closed, \<open>pstats\<close> is the
  field \<^verbatim>\<open>stats\<close>. The channel of the idle workers' channels serves the hand-over of a job
  from the dispatcher to a worker, which no claim is about, and is not modelled.
\<close>

record 'e Pool =
  executor :: SafeExecutor
  maxWorkers :: int
  workerCount :: int
  jobQueue :: "'e SimpleJob chan"
  quit_closed :: bool
  pstats :: PoolStats

datatype PoolError = PoolError (Message: string)

definition ErrPoolFull :: PoolError where
  "ErrPoolFull = PoolError ''pool is full''"

text \<open>
  \<^verbatim>\<open>NewPool\<close> makes the two channels and spawns, through the pool's own executor, the
  dispatcher and \<^verbatim>\<open>MaxWorkers\<close> workers.
\<close>

definition NewPool :: "PoolConfig option \<Rightarrow> 'e Pool go" where
  "NewPool config =
     (let cfg = (case config of None \<Rightarrow> DefaultPoolConfig | Some c \<Rightarrow> c)
      in case make_chan (QueueSize cfg) of
           Panic p \<Rightarrow> Panic p
         | Blocked \<Rightarrow> Blocked
         | Ok jq \<Rightarrow>
             if MaxWorkers cfg < 0 then Panic MakechanSizeOutOfRange
             else Ok \<lparr>executor =
                         ((\<lambda>se. fst (GoWithContext_spawn se)) ^^ (1 + nat (MaxWorkers cfg)))
                           NewSafeExecutor,
                       maxWorkers = MaxWorkers cfg, workerCount = 0, jobQueue = jq,
                       quit_closed = False, pstats = zero_PoolStats\<rparr>)"

text \<open>
  \<^verbatim>\<open>Submit\<close> is a \<^verbatim>\<open>select\<close> with the send on \<^verbatim>\<open>jobQueue\<close> and a \<^verbatim>\<open>default\<close>. It runs in
  the caller's goroutine: a panic of the send is the caller's.
\<close>

definition Submit :: "'e Pool \<Rightarrow> 'e SimpleJob \<Rightarrow> ('e Pool \<times> PoolError option) go" where
  "Submit p job =
     (case send_nb (jobQueue p) job of
        Ok (True, q) \<Rightarrow> Ok (p\<lparr>jobQueue := q\<rparr>, None)
      | Ok (False, q) \<Rightarrow> Ok (p, Some ErrPoolFull)
      | Panic v \<Rightarrow> Panic v
      | Blocked \<Rightarrow> Blocked)"

definition SubmitFunc :: "'e Pool \<Rightarrow> string \<Rightarrow> 'e JobRun \<Rightarrow> ('e Pool \<times> PoolError option) go" where
  "SubmitFunc p name f = Submit p \<lparr>ID = name, Timeout = 0, Fn = f\<rparr>"

definition SubmitWithTimeout ::
  "'e Pool \<Rightarrow> string \<Rightarrow> 'e JobRun \<Rightarrow> Duration \<Rightarrow> ('e Pool \<times> PoolError option) go" where
  "SubmitWithTimeout p name f t = Submit p \<lparr>ID = name, Timeout = t, Fn = f\<rparr>"

text \<open>
  The dispatcher after it has received a job: it updates the statistics (and hands the job
  to a worker).
\<close>

definition dispatcher_received :: "'e Pool \<Rightarrow> Time \<Rightarrow> 'e Pool" where
  "dispatcher_received p now =
     p\<lparr>pstats := (pstats p)\<lparr>TotalJobs := TotalJobs (pstats p) + 1,
                          LastJobTime := now,
                          QueuedJobs := int (length (buf (jobQueue p)))\<rparr>\<rparr>"

text \<open>
  The dispatcher at its \<^verbatim>\<open>select\<close>: it takes a job from the queue (the zero value once
  the queue is closed and drained), or it parks. It is the only receiver of the queue, so it
  does not start a receive while it is parked; a sender that hands it a job, or the close of
  the queue, wakes it, and it goes on as after any receive.
\<close>

definition dispatcher_select :: "'e Pool \<Rightarrow> Time \<Rightarrow> 'e Pool" where
  "dispatcher_select p now =
     (if recvq (jobQueue p) > 0 then p
      else (case recv_or_park (jobQueue p) of
              (Some job, q) \<Rightarrow> dispatcher_received (p\<lparr>jobQueue := q\<rparr>) now
            | (None, q) \<Rightarrow> p\<lparr>jobQueue := q\<rparr>))"

text \<open>A worker goroutine counts itself when it starts and when it exits.\<close>

definition worker_started :: "'e Pool \<Rightarrow> 'e Pool" where
  "worker_started p =
     p\<lparr>workerCount := workerCount p + 1,
       pstats := (pstats p)\<lparr>ActiveWorkers := ActiveWorkers (pstats p) + 1\<rparr>\<rparr>"

definition worker_exited :: "'e Pool \<Rightarrow> 'e Pool" where
  "worker_exited p =
     p\<lparr>workerCount := workerCount p - 1,
       pstats := (pstats p)\<lparr>ActiveWorkers := ActiveWorkers (pstats p) - 1\<rparr>\<rparr>"

text \<open>
  The function that \<^verbatim>\<open>executeJob\<close> passes to the executor: it runs the job and, when the
  job returns, updates the statistics. \<open>jobTime\<close> is \<^verbatim>\<open>time.Since(startTime)\<close> then. The
  product and the sums are 64-bit; the divisor is at least 2 when the branch is taken.
\<close>

definition executeJob_fn :: "PoolStats \<Rightarrow> 'e JobRun \<Rightarrow> Duration \<Rightarrow> PoolStats \<times> FnOutcome" where
  "executeJob_fn ps run jobTime =
     (case run of
        JobPanics v \<Rightarrow> (ps, Panics v)
      | JobReturns err \<Rightarrow>
          (let ps1 = (if err \<noteq> None
                      then ps\<lparr>FailedJobs := FailedJobs ps + 1\<rparr>
                      else ps\<lparr>CompletedJobs := CompletedJobs ps + 1\<rparr>);
               totalJobs = wrap64 (CompletedJobs ps1 + FailedJobs ps1)
           in (if totalJobs > 0
               then ps1\<lparr>AverageJobTime :=
                          quo64 (wrap64 (wrap64 (AverageJobTime ps1 * totalJobs) + jobTime))
                                (wrap64 (totalJobs + 1))\<rparr>
               else ps1,
               Returns)))"

text \<open>
  \<^verbatim>\<open>executeJob\<close>: the spawn through the executor and the goroutine it starts. With a
  context that is done when the goroutine checks it, the function is not run.
\<close>

definition executeJob ::
  "'e Pool \<Rightarrow> 'e SimpleJob \<Rightarrow> bool \<Rightarrow> Duration \<Rightarrow> RuntimeEnv \<Rightarrow> 'e Pool \<times> GoroutineExit" where
  "executeJob p job ctx_done jobTime env =
     (case GoWithContext_spawn (executor p) of
        (se1, h, l) \<Rightarrow>
          (case (if ctx_done then (pstats p, Returns)
                 else executeJob_fn (pstats p) (Fn job) jobTime) of
             (ps, outcome) \<Rightarrow>
               (case run_goroutine se1 h l ctx_done outcome env of
                  (se2, ex) \<Rightarrow> (p\<lparr>executor := se2, pstats := ps\<rparr>, ex))))"

definition Pool_GetStats :: "'e Pool \<Rightarrow> PoolStats" where
  "Pool_GetStats p =
     (pstats p)\<lparr>QueuedJobs := int (length (buf (jobQueue p))), ActiveWorkers := workerCount p\<rparr>"

text \<open>
  \<^verbatim>\<open>Stop\<close> closes \<^verbatim>\<open>quit\<close>. \<^verbatim>\<open>StopGracefully\<close> closes the job queue first, waits for the
  queue to drain or for the timeout, and closes \<^verbatim>\<open>quit\<close>; its two closes are two steps,
  between which the dispatcher goes on receiving. A step that panics leaves the pool as it
  was.
\<close>

definition Stop :: "'e Pool \<Rightarrow> 'e Pool go" where
  "Stop p = (if quit_closed p then Panic CloseOfClosedChannel else Ok (p\<lparr>quit_closed := True\<rparr>))"

definition StopGracefully_close :: "'e Pool \<Rightarrow> 'e Pool go" where
  "StopGracefully_close p =
     (case close_chan (jobQueue p) of
        Ok q \<Rightarrow> Ok (p\<lparr>jobQueue := q\<rparr>)
      | Panic v \<Rightarrow> Panic v
      | Blocked \<Rightarrow> Blocked)"

definition StopGracefully_quit :: "'e Pool \<Rightarrow> 'e Pool go" where
  "StopGracefully_quit p = Stop p"

text \<open>The pool after a step, whether the step panicked in its caller or not.\<close>

definition pool_after :: "'e Pool \<Rightarrow> 'e Pool go \<Rightarrow> 'e Pool" where
  "pool_after p r = (case r of Ok p' \<Rightarrow> p' | Panic v \<Rightarrow> p | Blocked \<Rightarrow> p)"

text \<open>
  \<^verbatim>\<open>StopGracefully\<close> as a whole; \<open>ticks\<close> are the instants at which the dispatcher comes
  to its \<^verbatim>\<open>select\<close> during the wait.
\<close>

definition StopGracefully :: "'e Pool \<Rightarrow> Time list \<Rightarrow> 'e Pool go" where
  "StopGracefully p ticks =
     (case StopGracefully_close p of
        Ok p1 \<Rightarrow> StopGracefully_quit (foldl dispatcher_select p1 ticks)
      | Panic v \<Rightarrow> Panic v
      | Blocked \<Rightarrow> Blocked)"

text \<open>What can happen to a pool, in any order.\<close>

datatype 'e PoolEvent =
    EvSubmit "'e SimpleJob"
  | EvDispatcher Time
  | EvDispatcherWoken Time
  | EvWorkerStarted
  | EvWorkerExited
  | EvExecuteJob "'e SimpleJob" bool Duration RuntimeEnv
  | EvStop
  | EvStopGracefully_close
  | EvStopGracefully_quit

fun pool_step :: "'e Pool \<Rightarrow> 'e PoolEvent \<Rightarrow> 'e Pool" where
  "pool_step p (EvSubmit job) =
     (case Submit p job of Ok (p', err) \<Rightarrow> p' | Panic v \<Rightarrow> p | Blocked \<Rightarrow> p)"
| "pool_step p (EvDispatcher now) = dispatcher_select p now"
| "pool_step p (EvDispatcherWoken now) = dispatcher_received p now"
| "pool_step p EvWorkerStarted = worker_started p"
| "pool_step p EvWorkerExited = worker_exited p"
| "pool_step p (EvExecuteJob job ctx_done jobTime env) =
     fst (executeJob p job ctx_done jobTime env)"
| "pool_step p EvStop = pool_after p (Stop p)"
| "pool_step p EvStopGracefully_close = pool_after p (StopGracefully_close p)"
| "pool_step p EvStopGracefully_quit = pool_after p (StopGracefully_quit p)"

definition pool_run :: "'e Pool \<Rightarrow> 'e PoolEvent list \<Rightarrow> 'e Pool" where
  "pool_run p evs = foldl pool_step p evs"

section \<open>Properties of the backoff strategies\<close>

lemma wrap64_id: "in_int64 x \<Longrightarrow> wrap64 x = x"
  by (simp add: in_int64_def wrap64_def)

lemma exponential_loop_min:
  assumes "i \<le> attempt" "dl \<le> maxDelay" "maxDelay < 2 ^ 62"
    and "- (2 ^ 63) \<le> dl * 2 ^ nat (attempt - i)"
  shows "exponential_loop maxDelay attempt i dl = min (dl * 2 ^ nat (attempt - i)) maxDelay"
  using assms
proof (induction maxDelay attempt i dl rule: exponential_loop.induct)
  case (1 maxDelay attempt i dl)
  show ?case
  proof (cases "i < attempt")
    case False
    with "1.prems" have "attempt - i = 0" by simp
    with False "1.prems" show ?thesis by (subst exponential_loop.simps) simp
  next
    case True
    define k where "k = nat (attempt - (i + 1))"
    have kk: "nat (attempt - i) = Suc k" using True by (simp add: k_def)
    have low: "- (2 ^ 63) \<le> dl * 2 * 2 ^ k" using "1.prems"(4) kk by (simp add: mult.assoc)
    have p: "(1::int) \<le> 2 ^ k" by simp
    have low2: "- (2 ^ 63) \<le> dl * 2"
    proof (cases "0 \<le> dl")
      case True then show ?thesis by simp
    next
      case False
      then have "dl * 2 * 2 ^ k \<le> dl * 2 * 1"
        using p by (intro mult_left_mono_neg) auto
      with low show ?thesis by simp
    qed
    have rng: "in_int64 (dl * 2)"
      using low2 "1.prems"(2,3) by (simp add: in_int64_def)
    have w: "wrap64 (dl * 2) = dl * 2" by (rule wrap64_id [OF rng])
    define d' where "d' = (if dl * 2 > maxDelay then maxDelay else dl * 2)"
    have step: "exponential_loop maxDelay attempt i dl = exponential_loop maxDelay attempt (i + 1) d'"
      using True by (subst exponential_loop.simps) (simp add: w d'_def Let_def)
    have d'le: "d' \<le> maxDelay" by (simp add: d'_def)
    show ?thesis
    proof (cases "dl * 2 > maxDelay")
      case False
      then have d': "d' = dl * 2" by (simp add: d'_def)
      have "exponential_loop maxDelay attempt (i + 1) d' = min (d' * 2 ^ nat (attempt - (i + 1))) maxDelay"
        using True w False d' low "1.prems"(3) d'le
        by (intro "1.IH"[OF True refl, unfolded w, folded d'_def]) (auto simp: k_def)
      then show ?thesis using step kk d' by (simp add: k_def mult.assoc)
    next
      case big: True
      then have d': "d' = maxDelay" by (simp add: d'_def)
      from big "1.prems"(2) have pos: "0 < dl" by linarith
      then have mpos: "0 < maxDelay" using "1.prems"(2) by linarith
      have "maxDelay * 1 \<le> maxDelay * 2 ^ k" using p mpos by (intro mult_left_mono) auto
      then have ge: "maxDelay \<le> maxDelay * 2 ^ k" by simp
      have lowm: "- (2 ^ 63) \<le> d' * 2 ^ nat (attempt - (i + 1))"
      proof -
        have "(0::int) \<le> maxDelay * 2 ^ k" using mpos by simp
        moreover have "- (2 ^ 63) \<le> (0::int)" by simp
        ultimately show ?thesis unfolding d' k_def by (rule order_trans [rotated])
      qed
      have "exponential_loop maxDelay attempt (i + 1) d' = min (d' * 2 ^ nat (attempt - (i + 1))) maxDelay"
        using True "1.prems"(3) d'le lowm
        by (intro "1.IH"[OF True refl, unfolded w, folded d'_def]) auto
      then have r: "exponential_loop maxDelay attempt (i + 1) d' = maxDelay"
        using d' ge by (simp add: k_def)
      have "dl * 2 * 1 \<le> dl * 2 * 2 ^ k" using p pos by (intro mult_left_mono) auto
      then have "maxDelay < dl * 2 ^ Suc k" using big by (simp add: mult.assoc)
      then show ?thesis using step r kk by simp
    qed
  qed
qed


lemma linear_delay_min:
  assumes "in_int64 (attempt + 1)" and "in_int64 (base * (attempt + 1))"
  shows "GetDelay (LinearBackoff base maxDelay) attempt = min (base * (attempt + 1)) maxDelay"
  using assms by (simp add: wrap64_id Let_def min_def)

text \<open>
  Claim C8, as amended. \<^verbatim>\<open>FixedBackoff.GetDelay\<close> is the constant \<^verbatim>\<open>Delay\<close>.
  \<^verbatim>\<open>LinearBackoff.GetDelay(attempt)\<close> is \<open>min (base * (attempt + 1)) maxDelay\<close> whenever
  \<open>attempt + 1\<close> and the product fit in 64 bits. \<^verbatim>\<open>ExponentialBackoff.GetDelay(attempt)\<close> is
  \<open>min (base * 2 ^ attempt) maxDelay\<close> for \<open>attempt \<ge> 0\<close> whenever \<open>base \<le> maxDelay\<close>,
  \<open>maxDelay < 2 ^ 62\<close> nanoseconds (so that doubling a capped delay fits in 64 bits) and
  \<open>base * 2 ^ attempt\<close> is not below the smallest 64-bit integer.
\<close>

theorem GetDelay_backoff_formulas:
  "GetDelay (FixedBackoff d) attempt = d \<and>
   (in_int64 (attempt + 1) \<and> in_int64 (base * (attempt + 1)) \<longrightarrow>
      GetDelay (LinearBackoff base maxDelay) attempt = min (base * (attempt + 1)) maxDelay) \<and>
   (0 \<le> attempt \<and> base \<le> maxDelay \<and> maxDelay < 2 ^ 62 \<and>
    - (2 ^ 63) \<le> base * 2 ^ nat attempt \<longrightarrow>
      GetDelay (ExponentialBackoff base maxDelay) attempt = min (base * 2 ^ nat attempt) maxDelay)"
proof (intro conjI impI)
  show "GetDelay (FixedBackoff d) attempt = d" by simp
next
  assume "in_int64 (attempt + 1) \<and> in_int64 (base * (attempt + 1))"
  then show "GetDelay (LinearBackoff base maxDelay) attempt = min (base * (attempt + 1)) maxDelay"
    by (simp only: linear_delay_min)
next
  assume h: "0 \<le> attempt \<and> base \<le> maxDelay \<and> maxDelay < 2 ^ 62 \<and>
    - (2 ^ 63) \<le> base * 2 ^ nat attempt"
  then have "exponential_loop maxDelay attempt 0 base = min (base * 2 ^ nat (attempt - 0)) maxDelay"
    by (intro exponential_loop_min) simp_all
  then show "GetDelay (ExponentialBackoff base maxDelay) attempt = min (base * 2 ^ nat attempt) maxDelay"
    by simp
qed

text \<open>
  The theorem at 100 ms base delay, 1 s maximal delay and attempt 4: the linear delay is
  500 ms, the exponential one is capped at 1 s.
\<close>

theorem GetDelay_backoff_formulas_witness:
  "in_int64 (4 + 1) \<and> in_int64 (100000000 * (4 + 1)) \<and>
   (0::int) \<le> 4 \<and> (100000000::int) \<le> 1000000000 \<and> (1000000000::int) < 2 ^ 62 \<and>
   - (2 ^ 63) \<le> (100000000::int) * 2 ^ nat 4 \<and>
   GetDelay (FixedBackoff 10) 4 = 10 \<and>
   GetDelay (LinearBackoff 100000000 1000000000) 4 = 500000000 \<and>
   GetDelay (ExponentialBackoff 100000000 1000000000) 4 = 1000000000"
  using GetDelay_backoff_formulas [of 10 4 100000000 1000000000]
  by (simp add: in_int64_def)

text \<open>
  Claim C8 as stated fails. With \<^verbatim>\<open>BaseDelay\<close> 10 above \<^verbatim>\<open>MaxDelay\<close> 5 the exponential
  strategy returns 10 at attempt 0, where \<open>min (base * 2 ^ attempt) maxDelay\<close> is 5: the loop
  that caps the delay is not entered. With \<^verbatim>\<open>BaseDelay\<close> \<open>2 ^ 62\<close> the linear strategy's
  product at attempt 1 wraps around to \<open>- 2 ^ 63\<close>, and from \<^verbatim>\<open>BaseDelay\<close> 1 with the
  largest \<^verbatim>\<open>MaxDelay\<close> the exponential strategy's doubling does so at attempt 63.
\<close>

theorem GetDelay_backoff_counterexample:
  "GetDelay (ExponentialBackoff 10 5) 0 = 10 \<and>
   min (10 * 2 ^ nat 0) 5 = (5::int) \<and>
   GetDelay (LinearBackoff (2 ^ 62) (2 ^ 63 - 1)) 1 = - (2 ^ 63) \<and>
   min (2 ^ 62 * (1 + 1)) (2 ^ 63 - 1) = (2 ^ 63 - 1 :: int) \<and>
   GetDelay (ExponentialBackoff 1 (2 ^ 63 - 1)) 63 = - (2 ^ 63) \<and>
   min (1 * 2 ^ nat 63) (2 ^ 63 - 1) = (2 ^ 63 - 1 :: int)"
proof -
  have a: "GetDelay (ExponentialBackoff 10 5) 0 = 10"
    by (simp add: exponential_loop.simps)
  have b: "GetDelay (LinearBackoff (2 ^ 62) (2 ^ 63 - 1)) 1 = - (2 ^ 63)"
    by (simp add: wrap64_def)
  have c: "GetDelay (ExponentialBackoff 1 (2 ^ 63 - 1)) 63 = - (2 ^ 63)"
    by code_simp
  show ?thesis using a b c by simp
qed

section \<open>Properties of Retry\<close>

lemma Execute_loop_all_fail:
  assumes "\<forall>k. calls \<le> k \<and> int k < int calls + (maxAttempts r - attempt) \<longrightarrow> f k \<noteq> None"
    and "0 \<le> attempt"
  shows "Execute_loop r f attempt lastErr calls sleeps =
     (Some (RetryFailed (maxAttempts r)
        (if attempt < maxAttempts r then f (calls + nat (maxAttempts r - attempt) - 1) else lastErr)),
      calls + nat (maxAttempts r - attempt),
      sleeps @ map (GetDelay (backoff r)) [attempt .. maxAttempts r - 2])"
  using assms
proof (induction r f attempt lastErr calls sleeps rule: Execute_loop.induct)
  case (1 r f attempt lastErr calls sleeps)
  show ?case
  proof (cases "attempt < maxAttempts r")
    case False
    then show ?thesis by (subst Execute_loop.simps) simp
  next
    case True
    from "1.prems"(1) True have "f calls \<noteq> None" by auto
    then obtain err where err: "f calls = Some err" by auto
    define sleeps' where "sleeps' = (if attempt < maxAttempts r - 1
                   then sleeps @ [GetDelay (backoff r) attempt] else sleeps)"
    have IHp: "\<forall>k. Suc calls \<le> k \<and> int k < int (Suc calls) + (maxAttempts r - (attempt + 1)) \<longrightarrow> f k \<noteq> None"
      using "1.prems"(1) by auto
    have a1: "0 \<le> attempt + 1" using "1.prems"(2) by simp
    have step: "Execute_loop r f attempt lastErr calls sleeps =
        Execute_loop r f (attempt + 1) (Some err) (Suc calls) sleeps'"
      by (subst Execute_loop.simps) (simp add: True err sleeps'_def)
    have IH: "Execute_loop r f (attempt + 1) (Some err) (Suc calls) sleeps' =
       (Some (RetryFailed (maxAttempts r)
          (if attempt + 1 < maxAttempts r then f (Suc calls + nat (maxAttempts r - (attempt + 1)) - 1) else Some err)),
        Suc calls + nat (maxAttempts r - (attempt + 1)),
        sleeps' @ map (GetDelay (backoff r)) [attempt + 1 .. maxAttempts r - 2])"
      unfolding sleeps'_def by (rule "1.IH"[OF True err IHp a1])
    have n: "nat (maxAttempts r - attempt) = Suc (nat (maxAttempts r - (attempt + 1)))"
      using True by simp
    have c2: "Suc calls + nat (maxAttempts r - (attempt + 1)) = calls + nat (maxAttempts r - attempt)"
      by (simp add: n)
    have c3: "sleeps' @ map (GetDelay (backoff r)) [attempt + 1 .. maxAttempts r - 2]
        = sleeps @ map (GetDelay (backoff r)) [attempt .. maxAttempts r - 2]"
    proof (cases "attempt < maxAttempts r - 1")
      case True
      then have "[attempt .. maxAttempts r - 2] = attempt # [attempt + 1 .. maxAttempts r - 2]"
        by (simp add: upto_rec1)
      with True show ?thesis by (simp add: sleeps'_def)
    next
      case False
      then show ?thesis by (simp add: sleeps'_def)
    qed
    have c1: "(if attempt + 1 < maxAttempts r then f (Suc calls + nat (maxAttempts r - (attempt + 1)) - 1) else Some err)
        = f (calls + nat (maxAttempts r - attempt) - 1)"
    proof (cases "attempt + 1 < maxAttempts r")
      case True
      then show ?thesis by (simp add: n)
    next
      case False
      with \<open>attempt < maxAttempts r\<close> have "maxAttempts r - attempt = 1" by simp
      with False show ?thesis by (simp add: err)
    qed
    have e: "Execute_loop r f attempt lastErr calls sleeps =
       (Some (RetryFailed (maxAttempts r) (f (calls + nat (maxAttempts r - attempt) - 1))),
        calls + nat (maxAttempts r - attempt),
        sleeps @ map (GetDelay (backoff r)) [attempt .. maxAttempts r - 2])"
      using step IH by (simp only: c1) (simp only: c2 c3)
    show ?thesis
      unfolding e using True by simp
  qed
qed

lemma Execute_loop_success:
  assumes "f (calls + k) = None" and "\<forall>j<k. f (calls + j) \<noteq> None"
    and "attempt + int k < maxAttempts r"
  shows "Execute_loop r f attempt lastErr calls sleeps =
     (None, calls + k + 1, sleeps @ map (GetDelay (backoff r)) [attempt .. attempt + int k - 1])"
  using assms
proof (induction k arbitrary: attempt lastErr calls sleeps)
  case 0
  then show ?case by (subst Execute_loop.simps) simp
next
  case (Suc k)
  from Suc.prems(2) have "f (calls + 0) \<noteq> None" by blast
  then obtain err where err: "f calls = Some err" by auto
  have a: "f (Suc calls + k) = None" using Suc.prems(1) by simp
  have b: "\<forall>j<k. f (Suc calls + j) \<noteq> None" using Suc.prems(2) by auto
  have c: "(attempt + 1) + int k < maxAttempts r" using Suc.prems(3) by simp
  have lt: "attempt < maxAttempts r" "attempt < maxAttempts r - 1" using Suc.prems(3) by auto
  have step: "Execute_loop r f attempt lastErr calls sleeps =
        Execute_loop r f (attempt + 1) (Some err) (Suc calls) (sleeps @ [GetDelay (backoff r) attempt])"
    by (subst Execute_loop.simps) (simp add: lt err)
  have up: "[attempt .. attempt + int (Suc k) - 1] = attempt # [attempt + 1 .. attempt + 1 + int k - 1]"
    by (simp add: upto_rec1)
  show ?case
    unfolding step Suc.IH [OF a b c] up by simp
qed


text \<open>
  Claim C7. Let \<^verbatim>\<open>maxAttempts\<close> be \<open>N\<close>. If the first \<open>N\<close> invocations of the function all
  fail, \<^verbatim>\<open>Execute\<close> invokes it exactly \<open>N\<close> times, sleeps \<open>GetDelay 0\<close>, ..., \<open>GetDelay (N - 2)\<close>
  (one sleep between two consecutive attempts, none after the last), and returns the error
  that carries \<open>N\<close> and wraps the error of the last invocation. If invocation \<open>k < N\<close> is the
  first to return \<^verbatim>\<open>nil\<close>, \<^verbatim>\<open>Execute\<close> returns \<^verbatim>\<open>nil\<close> after these \<open>k + 1\<close> invocations and
  the \<open>k\<close> sleeps between them.
\<close>

theorem Retry_Execute_attempts:
  fixes f :: "nat \<Rightarrow> 'e option"
  assumes "maxAttempts r = int N"
  shows "((\<forall>k<N. f k \<noteq> None) \<longrightarrow>
            Retry_Execute r f =
              (Some (RetryFailed (int N) (if N = 0 then None else f (N - 1))), N,
               map (GetDelay (backoff r)) [0 .. int N - 2])) \<and>
         (\<forall>k<N. f k = None \<and> (\<forall>j<k. f j \<noteq> None) \<longrightarrow>
            Retry_Execute r f = (None, k + 1, map (GetDelay (backoff r)) [0 .. int k - 1]))"
proof (intro conjI impI allI)
  assume all: "\<forall>k<N. f k \<noteq> None"
  have "\<forall>k. 0 \<le> k \<and> int k < int 0 + (maxAttempts r - 0) \<longrightarrow> f k \<noteq> None"
    using assms all by simp
  from Execute_loop_all_fail [OF this, of None "[]"] assms
  show "Retry_Execute r f =
      (Some (RetryFailed (int N) (if N = 0 then None else f (N - 1))), N,
       map (GetDelay (backoff r)) [0 .. int N - 2])"
    by (auto simp: Retry_Execute_def)
next
  fix k
  assume "k < N" and "f k = None \<and> (\<forall>j<k. f j \<noteq> None)"
  then show "Retry_Execute r f = (None, k + 1, map (GetDelay (backoff r)) [0 .. int k - 1])"
    using Execute_loop_success [of f 0 k 0 r None "[]"] assms
    by (simp add: Retry_Execute_def)
qed

text \<open>
  The theorem at three attempts with a fixed backoff of 10 ms: a function that always
  fails is invoked three times with two sleeps, and one that fails twice and then succeeds
  gives \<^verbatim>\<open>nil\<close> after exactly three invocations.
\<close>

theorem Retry_Execute_attempts_witness:
  "maxAttempts (NewRetry 3 10000000 None) = int 3 \<and>
   Retry_Execute (NewRetry 3 10000000 None) (\<lambda>k. Some (''failure '' @ [char_of k])) =
     (Some (RetryFailed 3 (Some (''failure '' @ [char_of (2::nat)]))), 3, [10000000, 10000000]) \<and>
   Retry_Execute (NewRetry 3 10000000 None) (\<lambda>k. if k < 2 then Some ''failure'' else None) =
     (None, 3, [10000000, 10000000])"
proof -
  have m: "maxAttempts (NewRetry 3 10000000 None) = int 3"
    by (simp add: NewRetry_def)
  have u: "[0 .. 1] = [0, 1 :: int]"
    by (simp add: upto_rec1)
  from Retry_Execute_attempts [OF m, of "\<lambda>k. Some (''failure '' @ [char_of k])"]
  have a: "Retry_Execute (NewRetry 3 10000000 None) (\<lambda>k. Some (''failure '' @ [char_of k])) =
     (Some (RetryFailed 3 (Some (''failure '' @ [char_of (2::nat)]))), 3, [10000000, 10000000])"
    by (simp add: NewRetry_def u)
  from Retry_Execute_attempts [OF m, of "\<lambda>k. if k < 2 then Some ''failure'' else None",
      THEN conjunct2, rule_format, of 2]
  have "Retry_Execute (NewRetry 3 10000000 None) (\<lambda>k. if k < 2 then Some ''failure'' else None) =
     (None, 2 + 1, map (GetDelay (backoff (NewRetry 3 10000000 None))) [0 .. int 2 - 1])"
    by simp
  then have b: "Retry_Execute (NewRetry 3 10000000 None) (\<lambda>k. if k < 2 then Some ''failure'' else None) =
     (None, 3, [10000000, 10000000])"
    by (simp add: NewRetry_def u)
  show ?thesis using m a b by simp
qed

section \<open>Properties of the circuit breaker\<close>

lemma Execute_closed_step:
  assumes "state cb = StateClosed"
  shows "fst (CircuitBreaker_Execute cb c) = Execute_record cb (fn_result c) (finished c)"
    and "snd (snd (CircuitBreaker_Execute cb c)) = 1"
  using assms by (simp_all add: CircuitBreaker_Execute_def Execute_admit_def)

lemma Execute_record_closed:
  assumes "state cb = StateClosed"
  shows "maxFailures (Execute_record cb r t) = maxFailures cb"
    and "failureCount (Execute_record cb r t) = failureCount cb + (if r = None then 0 else 1)"
    and "state (Execute_record cb r t) =
           (if r \<noteq> None \<and> maxFailures cb \<le> failureCount cb + 1 then StateOpen else StateClosed)"
    and "r \<noteq> None \<Longrightarrow> lastFailureTime (Execute_record cb r t) = t"
  using assms by (auto simp: Execute_record_def Let_def split: option.splits)

lemma failures_Cons:
  "failures (c # cs) = (if fn_result c = None then 0 else 1) + failures cs"
  by (simp add: failures_def)

lemma run_calls_stays_closed:
  assumes "state cb = StateClosed"
    and "failureCount cb + int (failures cs) < maxFailures cb"
  shows "state (run_calls cb cs) = StateClosed \<and>
         failureCount (run_calls cb cs) = failureCount cb + int (failures cs) \<and>
         maxFailures (run_calls cb cs) = maxFailures cb"
  using assms
proof (induction cs arbitrary: cb)
  case Nil
  then show ?case by (simp add: failures_def)
next
  case (Cons c cs)
  let ?cb = "fst (CircuitBreaker_Execute cb c)"
  have e: "?cb = Execute_record cb (fn_result c) (finished c)"
    by (rule Execute_closed_step(1) [OF Cons.prems(1)])
  have f0: "0 \<le> int (failures cs)" by simp
  have s: "state ?cb = StateClosed"
    unfolding e using Cons.prems f0 by (simp add: Execute_record_closed failures_Cons split: if_splits)
  have m: "maxFailures ?cb = maxFailures cb"
    unfolding e by (simp add: Execute_record_closed Cons.prems(1))
  have fc: "failureCount ?cb = failureCount cb + (if fn_result c = None then 0 else 1)"
    unfolding e by (simp add: Execute_record_closed Cons.prems(1))
  have lt: "failureCount ?cb + int (failures cs) < maxFailures ?cb"
    using Cons.prems(2) by (simp add: m fc failures_Cons split: if_splits)
  from Cons.IH [OF s lt] show ?case
    by (simp add: m fc failures_Cons)
qed


text \<open>
  Claim C3, as amended. From the initial Closed state with zero counters, the breaker's
  failure counter counts every failed call, whether or not successful calls lie in between
  (a success in Closed does not reset it). After any sequence of calls of which fewer than
  \<^verbatim>\<open>maxFailures\<close> have failed, the breaker is Closed and the counter is the number of
  failed calls; the next failed call is executed and increments the counter, and it opens
  the breaker and records \<^verbatim>\<open>lastFailureTime\<close> exactly when the counter thereby reaches
  \<^verbatim>\<open>maxFailures\<close>.
\<close>

theorem CircuitBreaker_opens_at_total_failures:
  fixes cs :: "'e Call list" and c :: "'e Call"
  assumes "cb = run_calls (NewCircuitBreaker maxF timeout) cs"
    and "int (failures cs) < maxF"
  shows "state cb = StateClosed \<and> failureCount cb = int (failures cs) \<and>
         (fn_result c \<noteq> None \<longrightarrow>
            snd (snd (CircuitBreaker_Execute cb c)) = 1 \<and>
            failureCount (fst (CircuitBreaker_Execute cb c)) = int (failures cs) + 1 \<and>
            (if int (failures cs) + 1 = maxF
             then state (fst (CircuitBreaker_Execute cb c)) = StateOpen \<and>
                  lastFailureTime (fst (CircuitBreaker_Execute cb c)) = finished c
             else state (fst (CircuitBreaker_Execute cb c)) = StateClosed))"
proof -
  let ?cb0 = "NewCircuitBreaker maxF timeout"
  have s0: "state ?cb0 = StateClosed" and f0: "failureCount ?cb0 = 0" and m0: "maxFailures ?cb0 = maxF"
    by (simp_all add: NewCircuitBreaker_def)
  have "failureCount ?cb0 + int (failures cs) < maxFailures ?cb0"
    using assms(2) by (simp add: f0 m0)
  from run_calls_stays_closed [OF s0 this]
  have c: "state cb = StateClosed" "failureCount cb = int (failures cs)" "maxFailures cb = maxF"
    by (simp_all add: assms(1) f0 m0)
  show ?thesis
    using c assms(2)
    by (auto simp: Execute_closed_step Execute_record_closed)
qed


text \<open>
  The theorem at \<^verbatim>\<open>maxFailures\<close> 3: after a failure and a success the breaker is Closed
  with one failure counted; after two failures a third one opens it.
\<close>

theorem CircuitBreaker_opens_at_total_failures_witness:
  "int (failures [\<lparr>entered = 0, fn_result = Some ''down'', finished = 1\<rparr>,
                  \<lparr>entered = 2, fn_result = None, finished = 3\<rparr>]) < 3 \<and>
   fn_result \<lparr>entered = 4, fn_result = Some ''down'', finished = 5\<rparr> \<noteq> None \<and>
   state (run_calls (NewCircuitBreaker 3 200)
            [\<lparr>entered = 0, fn_result = Some ''down'', finished = 1\<rparr>,
             \<lparr>entered = 2, fn_result = None, finished = 3\<rparr>]) = StateClosed \<and>
   failureCount (run_calls (NewCircuitBreaker 3 200)
            [\<lparr>entered = 0, fn_result = Some ''down'', finished = 1\<rparr>,
             \<lparr>entered = 2, fn_result = None, finished = 3\<rparr>]) = 1 \<and>
   int (failures [\<lparr>entered = 0, fn_result = Some ''down'', finished = 1\<rparr>,
                  \<lparr>entered = 2, fn_result = Some ''down'', finished = 3\<rparr>]) < 3 \<and>
   state (fst (CircuitBreaker_Execute
            (run_calls (NewCircuitBreaker 3 200)
               [\<lparr>entered = 0, fn_result = Some ''down'', finished = 1\<rparr>,
                \<lparr>entered = 2, fn_result = Some ''down'', finished = 3\<rparr>])
            \<lparr>entered = 4, fn_result = Some ''down'', finished = 5\<rparr>)) = StateOpen \<and>
   lastFailureTime (fst (CircuitBreaker_Execute
            (run_calls (NewCircuitBreaker 3 200)
               [\<lparr>entered = 0, fn_result = Some ''down'', finished = 1\<rparr>,
                \<lparr>entered = 2, fn_result = Some ''down'', finished = 3\<rparr>])
            \<lparr>entered = 4, fn_result = Some ''down'', finished = 5\<rparr>)) = 5"
  using
    CircuitBreaker_opens_at_total_failures
      [where cs = "[\<lparr>entered = 0, fn_result = Some ''down'', finished = 1\<rparr>,
                    \<lparr>entered = 2, fn_result = None, finished = 3\<rparr>]"
         and maxF = 3 and timeout = 200
         and c = "\<lparr>entered = 4, fn_result = Some ''down'', finished = 5\<rparr>", OF refl]
    CircuitBreaker_opens_at_total_failures
      [where cs = "[\<lparr>entered = 0, fn_result = Some ''down'', finished = 1\<rparr>,
                    \<lparr>entered = 2, fn_result = Some ''down'', finished = 3\<rparr>]"
         and maxF = 3 and timeout = 200
         and c = "\<lparr>entered = 4, fn_result = Some ''down'', finished = 5\<rparr>", OF refl]
  by (simp add: failures_def)

text \<open>
  Claim C3 as stated fails: with \<^verbatim>\<open>maxFailures\<close> 3, the calls fail, succeed, fail,
  succeed, fail. No run of consecutive failures is longer than one, yet the breaker is
  Open after the fifth call: the three failures have added up.
\<close>

theorem CircuitBreaker_consecutive_counterexample:
  "longest_failure_run (map fn_result
      [\<lparr>entered = 0, fn_result = Some ''down'', finished = 1\<rparr>,
       \<lparr>entered = 2, fn_result = None, finished = 3\<rparr>,
       \<lparr>entered = 4, fn_result = Some ''down'', finished = 5\<rparr>,
       \<lparr>entered = 6, fn_result = None, finished = 7\<rparr>,
       \<lparr>entered = 8, fn_result = Some ''down'', finished = 9\<rparr>]) = 1 \<and>
   state (run_calls (NewCircuitBreaker 3 200)
      [\<lparr>entered = 0, fn_result = Some ''down'', finished = 1\<rparr>,
       \<lparr>entered = 2, fn_result = None, finished = 3\<rparr>,
       \<lparr>entered = 4, fn_result = Some ''down'', finished = 5\<rparr>,
       \<lparr>entered = 6, fn_result = None, finished = 7\<rparr>,
       \<lparr>entered = 8, fn_result = Some ''down'', finished = 9\<rparr>]) = StateOpen"
  by (simp add: longest_failure_run_def NewCircuitBreaker_def CircuitBreaker_Execute_def
      Execute_admit_def Execute_record_def)







section \<open>Properties of the rate limiter\<close>

lemma fill_tokens_fills:
  assumes "\<not> closed c" and "recvq c = 0" and "length (buf c) + n \<le> cap c"
  shows "fill_tokens c n = Ok (c\<lparr>buf := buf c @ replicate n ()\<rparr>)"
  using assms
proof (induction n arbitrary: c)
  case 0
  then show ?case by simp
next
  case (Suc n)
  let ?c = "c\<lparr>buf := buf c @ [()]\<rparr>"
  have s: "send c () = Ok ?c" using Suc.prems by (simp add: send_def)
  have "fill_tokens ?c n = Ok (?c\<lparr>buf := buf ?c @ replicate n ()\<rparr>)"
    using Suc.prems by (intro Suc.IH) simp_all
  then show ?case by (simp add: s replicate_app_Cons_same)
qed

lemma Allow_times_Suc:
  "fst (Allow_times rl (Suc k)) = fst (Allow rl) # fst (Allow_times (snd (Allow rl)) k)"
  by (simp add: case_prod_unfold)

lemma Allow_times_open:
  assumes "\<not> closed (tokens rl)"
  shows "fst (Allow_times rl k) =
           replicate (min k (length (buf (tokens rl)))) True @
           replicate (k - length (buf (tokens rl))) False"
  using assms
proof (induction k arbitrary: rl)
  case 0
  then show ?case by simp
next
  case (Suc k)
  show ?case
  proof (cases "buf (tokens rl)")
    case Nil
    then have a: "Allow rl = (False, rl)"
      using Suc.prems by (simp add: Allow_def recv_nb_def)
    from Suc.IH [OF Suc.prems] Nil have "fst (Allow_times rl k) = replicate k False"
      by simp
    with Nil show ?thesis
      unfolding Allow_times_Suc by (simp add: a)
  next
    case (Cons v rest)
    let ?rl = "rl\<lparr>tokens := (tokens rl)\<lparr>buf := rest\<rparr>\<rparr>"
    have a: "Allow rl = (True, ?rl)"
      using Cons by (simp add: Allow_def recv_nb_def)
    have "\<not> closed (tokens ?rl)" using Suc.prems by simp
    from Suc.IH [OF this] Cons show ?thesis
      unfolding Allow_times_Suc by (simp add: a)
  qed
qed

lemma NewRateLimiter_Ok:
  assumes "NewRateLimiter se lim itv = Ok (rl, se')"
  shows "0 < lim \<and> \<not> closed (tokens rl) \<and> buf (tokens rl) = replicate (nat lim) () \<and>
         cap (tokens rl) = nat lim \<and> limit rl = lim"
proof -
  from assms have l: "0 \<le> lim"
    by (auto simp: NewRateLimiter_def make_chan_def split: if_splits)
  let ?c = "\<lparr>buf = [], cap = nat lim, closed = False, recvq = 0\<rparr> :: unit chan"
  have f: "fill_tokens ?c (nat lim) = Ok (?c\<lparr>buf := buf ?c @ replicate (nat lim) ()\<rparr>)"
    by (rule fill_tokens_fills) simp_all
  from assms l f show ?thesis
    by (auto simp: NewRateLimiter_def make_chan_def NewTicker_def split: if_splits go.splits)
qed

lemma NewRateLimiter_succeeds:
  assumes "1 \<le> lim" and "0 < quo64 itv lim"
  shows "\<exists>rl se'. NewRateLimiter se lim itv = Ok (rl, se')"
proof -
  let ?c = "\<lparr>buf = [], cap = nat lim, closed = False, recvq = 0\<rparr> :: unit chan"
  have "fill_tokens ?c (nat lim) = Ok (?c\<lparr>buf := buf ?c @ replicate (nat lim) ()\<rparr>)"
    by (rule fill_tokens_fills) simp_all
  with assms show ?thesis
    by (simp add: NewRateLimiter_def make_chan_def NewTicker_def)
qed

text \<open>
  Claim C9. A limiter that \<^verbatim>\<open>NewRateLimiter\<close> returns holds exactly \<^verbatim>\<open>limit\<close> tokens, and of
  \<open>k\<close> calls of \<^verbatim>\<open>Allow\<close> made before any tick of the refill, the first \<^verbatim>\<open>limit\<close> return
  true and all later ones return false.
\<close>

theorem RateLimiter_initial_tokens:
  assumes "NewRateLimiter se lim itv = Ok (rl, se')"
  shows "GetAvailableTokens rl = lim \<and>
         fst (Allow_times rl k) = replicate (min k (nat lim)) True @ replicate (k - nat lim) False"
  using NewRateLimiter_Ok [OF assms] Allow_times_open [of rl k]
  by (simp add: GetAvailableTokens_def)

text \<open>
  The theorem at \<^verbatim>\<open>limit\<close> 3 and an interval of one second: five calls of \<^verbatim>\<open>Allow\<close> give
  true, true, true, false, false.
\<close>

theorem RateLimiter_initial_tokens_witness:
  "NewRateLimiter NewSafeExecutor 3 1000000000 =
     Ok (\<lparr>limit = 3, interval = 1000000000,
          tokens = \<lparr>buf = [(), (), ()], cap = 3, closed = False, recvq = 0\<rparr>,
          ticker = 333333333\<rparr>,
         fst (GoWithContext_spawn NewSafeExecutor)) \<and>
   GetAvailableTokens \<lparr>limit = 3, interval = 1000000000,
          tokens = \<lparr>buf = [(), (), ()], cap = 3, closed = False, recvq = 0\<rparr>,
          ticker = 333333333\<rparr> = 3 \<and>
   fst (Allow_times \<lparr>limit = 3, interval = 1000000000,
          tokens = \<lparr>buf = [(), (), ()], cap = 3, closed = False, recvq = 0\<rparr>,
          ticker = 333333333\<rparr> 5) = [True, True, True, False, False]"
proof -
  have n: "NewRateLimiter NewSafeExecutor 3 1000000000 =
     Ok (\<lparr>limit = 3, interval = 1000000000,
          tokens = \<lparr>buf = [(), (), ()], cap = 3, closed = False, recvq = 0\<rparr>,
          ticker = 333333333\<rparr>,
         fst (GoWithContext_spawn NewSafeExecutor))"
    by (simp add: NewRateLimiter_def make_chan_def send_def NewTicker_def quo64_def wrap64_def
        eval_nat_numeral)
  have r: "replicate (min 5 (nat 3)) True @ replicate (5 - nat 3) False
      = [True, True, True, False, False]"
    by (simp add: eval_nat_numeral)
  from RateLimiter_initial_tokens [OF n, of 5] n show ?thesis
    by (simp only: r)
qed

section \<open>Properties of the safe executor\<close>

lemma stats_handlePanic:
  "stats (fst (handlePanic se v h l env)) =
     (stats se)\<lparr>PanicCount := PanicCount (stats se) + 1, LastPanicTime := time_Now env,
                LastPanicGoroutine := getGoroutineID env\<rparr>"
  by (cases l; cases h)
     (auto simp: handlePanic_def and_then_def call_logger_def call_handler_def Let_def
           split: option.splits prod.splits)

lemma stats_deferred_recover:
  "stats (fst (deferred_recover se panicking h l env)) =
     (case panicking of
        None \<Rightarrow> (stats se)\<lparr>CompletedCount := CompletedCount (stats se) + 1\<rparr>
      | Some v \<Rightarrow> (stats se)\<lparr>PanicCount := PanicCount (stats se) + 1, LastPanicTime := time_Now env,
                LastPanicGoroutine := getGoroutineID env\<rparr>)"
proof (cases panicking)
  case None
  then show ?thesis by (simp add: deferred_recover_def recover_def)
next
  case (Some v)
  have "fst (deferred_recover se (Some v) h l env) = fst (handlePanic se v h l env)"
    by (simp add: deferred_recover_def recover_def split: prod.splits option.splits)
  then show ?thesis using Some by (simp add: stats_handlePanic)
qed

lemma handlePanic_quiet:
  assumes "l = Some lg" and "\<forall>call. lg call = None"
    and "\<forall>hf. h = Some hf \<longrightarrow> hf v (debug_Stack env) (getGoroutineID env) = None"
  shows "snd (handlePanic se v h l env) = None"
    and "handlerCalls (fst (handlePanic se v h l env)) =
           handlerCalls se @
           (case h of None \<Rightarrow> [] | Some hf \<Rightarrow> [(v, debug_Stack env, getGoroutineID env)])"
  using assms
  by (auto simp: handlePanic_def and_then_def call_logger_def call_handler_def Let_def
           split: option.splits)

lemma goroutine_body_stats:
  "stats (fst (goroutine_body se l ctx_done f)) = stats se"
  "handlerCalls (fst (goroutine_body se l ctx_done f)) = handlerCalls se"
  by (auto simp: goroutine_body_def call_logger_def split: option.splits)

lemma goroutine_body_quiet:
  assumes "l = Some lg" and "\<forall>call. lg call = None"
  shows "snd (goroutine_body se l ctx_done f) =
           (if ctx_done then None else case f of Returns \<Rightarrow> None | Panics p \<Rightarrow> Some p)"
  using assms by (auto simp: goroutine_body_def call_logger_def)

lemma run_goroutine_counts:
  "(CompletedCount (stats (fst (run_goroutine se h l ctx_done f env))) = CompletedCount (stats se) + 1 \<and>
    PanicCount (stats (fst (run_goroutine se h l ctx_done f env))) = PanicCount (stats se)) \<or>
   (CompletedCount (stats (fst (run_goroutine se h l ctx_done f env))) = CompletedCount (stats se) \<and>
    PanicCount (stats (fst (run_goroutine se h l ctx_done f env))) = PanicCount (stats se) + 1)"
proof -
  obtain se1 pk where b: "goroutine_body se l ctx_done f = (se1, pk)" by (cases "goroutine_body se l ctx_done f")
  have s1: "stats se1 = stats se" using goroutine_body_stats(1) [of se l ctx_done f] b by simp
  have "fst (run_goroutine se h l ctx_done f env) = fst (deferred_recover (deferred_decrement se1) pk h l env)"
    by (simp add: run_goroutine_def b split: prod.splits option.splits)
  then show ?thesis
    by (cases pk) (simp_all add: stats_deferred_recover deferred_decrement_def s1)
qed

lemma run_goroutine_quiet:
  assumes "l = Some lg" and "\<forall>call. lg call = None"
    and "\<forall>hf p. h = Some hf \<longrightarrow> hf p (debug_Stack env) (getGoroutineID env) = None"
  shows "snd (run_goroutine se h l ctx_done f env) = ExitsNormally \<and>
         (\<not> ctx_done \<and> f = Panics v \<longrightarrow>
           handlerCalls (fst (run_goroutine se h l ctx_done f env)) =
             handlerCalls se @
             (case h of None \<Rightarrow> [] | Some hf \<Rightarrow> [(v, debug_Stack env, getGoroutineID env)]) \<and>
           PanicCount (stats (fst (run_goroutine se h l ctx_done f env))) = PanicCount (stats se) + 1 \<and>
           CompletedCount (stats (fst (run_goroutine se h l ctx_done f env))) = CompletedCount (stats se)) \<and>
         (ctx_done \<or> f = Returns \<longrightarrow>
           handlerCalls (fst (run_goroutine se h l ctx_done f env)) = handlerCalls se \<and>
           PanicCount (stats (fst (run_goroutine se h l ctx_done f env))) = PanicCount (stats se) \<and>
           CompletedCount (stats (fst (run_goroutine se h l ctx_done f env))) = CompletedCount (stats se) + 1)"
proof -
  obtain se1 pk where b: "goroutine_body se l ctx_done f = (se1, pk)"
    by (cases "goroutine_body se l ctx_done f")
  have s1: "stats se1 = stats se" "handlerCalls se1 = handlerCalls se"
    using goroutine_body_stats [of se l ctx_done f] b by simp_all
  have pk: "pk = (if ctx_done then None else case f of Returns \<Rightarrow> None | Panics p \<Rightarrow> Some p)"
    using goroutine_body_quiet [OF assms(1,2), of se ctx_done f] b by simp
  let ?d = "deferred_decrement se1"
  have d: "handlerCalls ?d = handlerCalls se" "PanicCount (stats ?d) = PanicCount (stats se)"
     "CompletedCount (stats ?d) = CompletedCount (stats se)"
    by (simp_all add: deferred_decrement_def s1)
  have hq: "snd (handlePanic ?d p h l env) = None" for p
    using assms by (simp add: handlePanic_quiet)
  have hc: "handlerCalls (fst (handlePanic ?d p h l env)) =
           handlerCalls ?d @
           (case h of None \<Rightarrow> [] | Some hf \<Rightarrow> [(p, debug_Stack env, getGoroutineID env)])" for p
    using assms by (simp add: handlePanic_quiet)
  have hp: "handlePanic ?d p h l env = (fst (handlePanic ?d p h l env), None)" for p
    using hq [of p] by (metis prod.collapse)
  have r: "deferred_recover ?d pk h l env =
     (case pk of
        None \<Rightarrow> (?d\<lparr>stats := (stats ?d)\<lparr>CompletedCount := CompletedCount (stats ?d) + 1\<rparr>\<rparr>, None)
      | Some p \<Rightarrow> (fst (handlePanic ?d p h l env), None))"
  proof (cases pk)
    case None
    then show ?thesis by (simp add: deferred_recover_def recover_def)
  next
    case (Some p)
    have "deferred_recover ?d (Some p) h l env = (fst (handlePanic ?d p h l env), None)"
      unfolding deferred_recover_def recover_def by (subst hp) simp
    with Some show ?thesis by simp
  qed
  have rS: "deferred_recover ?d (Some p) h l env = (fst (handlePanic ?d p h l env), None)" for p
    unfolding deferred_recover_def recover_def by (subst hp) simp
  have rN: "deferred_recover ?d None h l env =
      (?d\<lparr>stats := (stats ?d)\<lparr>CompletedCount := CompletedCount (stats ?d) + 1\<rparr>\<rparr>, None)"
    by (simp add: deferred_recover_def recover_def)
  have run: "run_goroutine se h l ctx_done f env =
      (fst (deferred_recover ?d pk h l env), ExitsNormally)"
    unfolding run_goroutine_def b using r by (cases pk) simp_all
  show ?thesis
  proof (intro conjI impI)
    show "snd (run_goroutine se h l ctx_done f env) = ExitsNormally" by (simp add: run)
  next
    assume "\<not> ctx_done \<and> f = Panics v"
    then have k: "pk = Some v" by (simp add: pk)
    show "handlerCalls (fst (run_goroutine se h l ctx_done f env)) =
             handlerCalls se @
             (case h of None \<Rightarrow> [] | Some hf \<Rightarrow> [(v, debug_Stack env, getGoroutineID env)])"
      by (simp add: run k rS hc d)
    show "PanicCount (stats (fst (run_goroutine se h l ctx_done f env))) = PanicCount (stats se) + 1"
      by (simp add: run k rS d stats_handlePanic)
    show "CompletedCount (stats (fst (run_goroutine se h l ctx_done f env))) = CompletedCount (stats se)"
      by (simp add: run k rS d stats_handlePanic)
  next
    assume "ctx_done \<or> f = Returns"
    then have k: "pk = None" by (auto simp: pk)
    show "handlerCalls (fst (run_goroutine se h l ctx_done f env)) = handlerCalls se"
      by (simp add: run k rN d)
    show "PanicCount (stats (fst (run_goroutine se h l ctx_done f env))) = PanicCount (stats se)"
      by (simp add: run k rN d)
    show "CompletedCount (stats (fst (run_goroutine se h l ctx_done f env))) = CompletedCount (stats se) + 1"
      by (simp add: run k rN d)
  qed
qed

lemma GoWithContext_unfold:
  "GoWithContext se ctx_done f env =
     run_goroutine (fst (GoWithContext_spawn se)) (recoverHandler se) (logger se) ctx_done f env"
  by (simp add: GoWithContext_def GoWithContext_spawn_def)

lemma spawn_fields:
  "handlerCalls (fst (GoWithContext_spawn se)) = handlerCalls se"
  "PanicCount (stats (fst (GoWithContext_spawn se))) = PanicCount (stats se)"
  "CompletedCount (stats (fst (GoWithContext_spawn se))) = CompletedCount (stats se)"
  by (simp_all add: GoWithContext_spawn_def)

text \<open>
  Claim C1, as amended, for a spawn through \<^verbatim>\<open>GoWithContext\<close> (\<^verbatim>\<open>Go\<close>, \<^verbatim>\<open>GoWithTimeout\<close>,
  \<^verbatim>\<open>GoWithDelay\<close> and every round of \<^verbatim>\<open>GoWithInterval\<close> are such spawns). Whatever the
  function, the logger and the handler do, the spawn increments exactly one of
  \<^verbatim>\<open>CompletedCount\<close> and \<^verbatim>\<open>PanicCount\<close>, by one. When the executor's logger is not
  \<^verbatim>\<open>nil\<close> and neither the logger nor the recovery handler panics, the goroutine ends
  normally whether the function returns or panics: the panic is recovered and the process
  goes on. A panic of the function is then counted in \<^verbatim>\<open>PanicCount\<close>, and the handler
  that was set at the spawn is called exactly once, with the panic value, the stack trace
  and the string that \<^verbatim>\<open>getGoroutineID\<close> returns; a function that returns, or that is
  skipped because the context is done, is counted in \<^verbatim>\<open>CompletedCount\<close>, and the handler
  is not called.
\<close>

theorem SafeExecutor_recovers_panics:
  "((CompletedCount (stats (fst (GoWithContext se ctx_done f env))) = CompletedCount (stats se) + 1 \<and>
     PanicCount (stats (fst (GoWithContext se ctx_done f env))) = PanicCount (stats se)) \<or>
    (CompletedCount (stats (fst (GoWithContext se ctx_done f env))) = CompletedCount (stats se) \<and>
     PanicCount (stats (fst (GoWithContext se ctx_done f env))) = PanicCount (stats se) + 1)) \<and>
   (logger se = Some lg \<and> (\<forall>call. lg call = None) \<and>
    (\<forall>hf p. recoverHandler se = Some hf \<longrightarrow> hf p (debug_Stack env) (getGoroutineID env) = None) \<longrightarrow>
      snd (GoWithContext se ctx_done f env) = ExitsNormally \<and>
      (\<not> ctx_done \<and> f = Panics v \<longrightarrow>
         handlerCalls (fst (GoWithContext se ctx_done f env)) =
           handlerCalls se @
           (case recoverHandler se of
              None \<Rightarrow> []
            | Some hf \<Rightarrow> [(v, debug_Stack env, getGoroutineID env)]) \<and>
         PanicCount (stats (fst (GoWithContext se ctx_done f env))) = PanicCount (stats se) + 1 \<and>
         CompletedCount (stats (fst (GoWithContext se ctx_done f env))) = CompletedCount (stats se)) \<and>
      (ctx_done \<or> f = Returns \<longrightarrow>
         handlerCalls (fst (GoWithContext se ctx_done f env)) = handlerCalls se \<and>
         PanicCount (stats (fst (GoWithContext se ctx_done f env))) = PanicCount (stats se) \<and>
         CompletedCount (stats (fst (GoWithContext se ctx_done f env))) = CompletedCount (stats se) + 1))"
proof (rule conjI, goal_cases)
  case 1
  show "(CompletedCount (stats (fst (GoWithContext se ctx_done f env))) = CompletedCount (stats se) + 1 \<and>
     PanicCount (stats (fst (GoWithContext se ctx_done f env))) = PanicCount (stats se)) \<or>
    (CompletedCount (stats (fst (GoWithContext se ctx_done f env))) = CompletedCount (stats se) \<and>
     PanicCount (stats (fst (GoWithContext se ctx_done f env))) = PanicCount (stats se) + 1)"
    unfolding GoWithContext_unfold
    using run_goroutine_counts [of "fst (GoWithContext_spawn se)" "recoverHandler se" "logger se" ctx_done f env]
    by (simp only: spawn_fields)
next
  case 2
  show ?case
  proof (rule impI)
  assume h: "logger se = Some lg \<and> (\<forall>call. lg call = None) \<and>
    (\<forall>hf p. recoverHandler se = Some hf \<longrightarrow> hf p (debug_Stack env) (getGoroutineID env) = None)"
  then have a: "logger se = Some lg" "\<forall>call. lg call = None"
    "\<forall>hf p. recoverHandler se = Some hf \<longrightarrow> hf p (debug_Stack env) (getGoroutineID env) = None"
    by blast+
  from run_goroutine_quiet [OF a, of "fst (GoWithContext_spawn se)" ctx_done f v]
  show "snd (GoWithContext se ctx_done f env) = ExitsNormally \<and>
      (\<not> ctx_done \<and> f = Panics v \<longrightarrow>
         handlerCalls (fst (GoWithContext se ctx_done f env)) =
           handlerCalls se @
           (case recoverHandler se of
              None \<Rightarrow> []
            | Some hf \<Rightarrow> [(v, debug_Stack env, getGoroutineID env)]) \<and>
         PanicCount (stats (fst (GoWithContext se ctx_done f env))) = PanicCount (stats se) + 1 \<and>
         CompletedCount (stats (fst (GoWithContext se ctx_done f env))) = CompletedCount (stats se)) \<and>
      (ctx_done \<or> f = Returns \<longrightarrow>
         handlerCalls (fst (GoWithContext se ctx_done f env)) = handlerCalls se \<and>
         PanicCount (stats (fst (GoWithContext se ctx_done f env))) = PanicCount (stats se) \<and>
         CompletedCount (stats (fst (GoWithContext se ctx_done f env))) = CompletedCount (stats se) + 1)"
    unfolding GoWithContext_unfold by (simp add: spawn_fields)
  qed
qed


text \<open>
  The theorem on a new executor, whose logger and handler are the default ones: a function
  that panics with "test panic" is recovered, counted as a panic and reported once to the
  handler; a function that returns is counted as completed.
\<close>

theorem SafeExecutor_recovers_panics_witness:
  "snd (GoWithContext NewSafeExecutor False (Panics (PanicValue ''test panic''))
          \<lparr>time_Now = 7, runtime_Stack = ''goroutine 18 [running]:'', debug_Stack = ''main.task''\<rparr>)
     = ExitsNormally \<and>
   handlerCalls (fst (GoWithContext NewSafeExecutor False (Panics (PanicValue ''test panic''))
          \<lparr>time_Now = 7, runtime_Stack = ''goroutine 18 [running]:'', debug_Stack = ''main.task''\<rparr>))
     = [(PanicValue ''test panic'', ''main.task'', ''goroutine'')] \<and>
   PanicCount (stats (fst (GoWithContext NewSafeExecutor False (Panics (PanicValue ''test panic''))
          \<lparr>time_Now = 7, runtime_Stack = ''goroutine 18 [running]:'', debug_Stack = ''main.task''\<rparr>)))
     = 1 \<and>
   CompletedCount (stats (fst (GoWithContext NewSafeExecutor False (Panics (PanicValue ''test panic''))
          \<lparr>time_Now = 7, runtime_Stack = ''goroutine 18 [running]:'', debug_Stack = ''main.task''\<rparr>)))
     = 0 \<and>
   snd (GoWithContext NewSafeExecutor False Returns
          \<lparr>time_Now = 7, runtime_Stack = ''goroutine 18 [running]:'', debug_Stack = ''main.task''\<rparr>)
     = ExitsNormally \<and>
   handlerCalls (fst (GoWithContext NewSafeExecutor False Returns
          \<lparr>time_Now = 7, runtime_Stack = ''goroutine 18 [running]:'', debug_Stack = ''main.task''\<rparr>))
     = [] \<and>
   CompletedCount (stats (fst (GoWithContext NewSafeExecutor False Returns
          \<lparr>time_Now = 7, runtime_Stack = ''goroutine 18 [running]:'', debug_Stack = ''main.task''\<rparr>)))
     = 1"
proof -
  have g: "getGoroutineID \<lparr>time_Now = 7, runtime_Stack = ''goroutine 18 [running]:'',
      debug_Stack = ''main.task''\<rparr> = ''goroutine''"
    by (simp add: getGoroutineID_def)
  have s: "logger NewSafeExecutor = Some DefaultLogger" "\<forall>call. DefaultLogger call = None"
    "recoverHandler NewSafeExecutor = Some defaultRecoverHandler"
    "\<forall>p a b. defaultRecoverHandler p a b = None" "handlerCalls NewSafeExecutor = []"
    "PanicCount (stats NewSafeExecutor) = 0" "CompletedCount (stats NewSafeExecutor) = 0"
    by (simp_all add: NewSafeExecutor_def DefaultLogger_def defaultRecoverHandler_def zero_Stats_def)
  note a = SafeExecutor_recovers_panics [where se = NewSafeExecutor and ctx_done = False
      and f = "Panics (PanicValue ''test panic'')" and lg = DefaultLogger
      and v = "PanicValue ''test panic''"
      and env = "\<lparr>time_Now = 7, runtime_Stack = ''goroutine 18 [running]:'', debug_Stack = ''main.task''\<rparr>",
      THEN conjunct2]
  note b = SafeExecutor_recovers_panics [where se = NewSafeExecutor and ctx_done = False
      and f = Returns and lg = DefaultLogger
      and v = "PanicValue ''test panic''"
      and env = "\<lparr>time_Now = 7, runtime_Stack = ''goroutine 18 [running]:'', debug_Stack = ''main.task''\<rparr>",
      THEN conjunct2]
  show ?thesis using a b by (simp add: s g)
qed

text \<open>
  Claim C1 as stated fails. After \<^verbatim>\<open>SetLogger(nil)\<close> a function that panics is recovered,
  but the first \<^verbatim>\<open>logger.Errorf\<close> of \<^verbatim>\<open>handlePanic\<close> dereferences the \<^verbatim>\<open>nil\<close> logger
  inside the deferred function: the goroutine ends panicking, the process terminates, and
  the recovery handler is never called. And with the default logger, the third argument
  that the handler receives is the word "goroutine" for goroutine 18 and for goroutine 42
  alike: \<^verbatim>\<open>getGoroutineID\<close> stops at the first space of the stack header, before the
  number.
\<close>

theorem SafeExecutor_nil_logger_counterexample:
  "snd (GoWithContext (SetLogger NewSafeExecutor None) False (Panics (PanicValue ''test panic''))
          \<lparr>time_Now = 7, runtime_Stack = ''goroutine 18 [running]:'', debug_Stack = ''main.task''\<rparr>)
     = ProcessCrashes NilPointerDereference \<and>
   handlerCalls (fst (GoWithContext (SetLogger NewSafeExecutor None) False
          (Panics (PanicValue ''test panic''))
          \<lparr>time_Now = 7, runtime_Stack = ''goroutine 18 [running]:'', debug_Stack = ''main.task''\<rparr>))
     = [] \<and>
   handlerCalls (fst (GoWithContext NewSafeExecutor False (Panics (PanicValue ''test panic''))
          \<lparr>time_Now = 7, runtime_Stack = ''goroutine 18 [running]:'', debug_Stack = ''main.task''\<rparr>))
     = [(PanicValue ''test panic'', ''main.task'', ''goroutine'')] \<and>
   handlerCalls (fst (GoWithContext NewSafeExecutor False (Panics (PanicValue ''test panic''))
          \<lparr>time_Now = 8, runtime_Stack = ''goroutine 42 [running]:'', debug_Stack = ''main.other''\<rparr>))
     = [(PanicValue ''test panic'', ''main.other'', ''goroutine'')]"
  by (simp add: GoWithContext_def GoWithContext_spawn_def run_goroutine_def goroutine_body_def
      deferred_decrement_def deferred_recover_def recover_def handlePanic_def and_then_def
      call_logger_def call_handler_def SetLogger_def NewSafeExecutor_def DefaultLogger_def
      defaultRecoverHandler_def getGoroutineID_def Let_def)


lemma exec_step_inv:
  assumes "exec_step s e = Some s'"
    and "ActiveGoroutines (stats (exec s)) = int (started s)"
    and "TotalGoroutines (stats (exec s)) =
           CompletedCount (stats (exec s)) + PanicCount (stats (exec s)) + int (started s) + int (leaving s)"
    and "TotalGoroutines (stats (exec s)) = int n"
    and "0 \<le> CompletedCount (stats (exec s))" and "0 \<le> PanicCount (stats (exec s))"
    and "is_reset e \<longrightarrow> started s = 0 \<and> leaving s = 0"
  shows "ActiveGoroutines (stats (exec s')) = int (started s') \<and>
         TotalGoroutines (stats (exec s')) =
           CompletedCount (stats (exec s')) + PanicCount (stats (exec s')) + int (started s') + int (leaving s') \<and>
         TotalGoroutines (stats (exec s')) =
           int (if is_reset e then 0 else if is_spawn e then Suc n else n) \<and>
         0 \<le> CompletedCount (stats (exec s')) \<and> 0 \<le> PanicCount (stats (exec s'))"
proof (cases e)
  case EvSpawn
  with assms show ?thesis by (auto simp: GoWithContext_spawn_def split: if_splits)
next
  case EvDeferredDecrement
  with assms show ?thesis by (auto simp: deferred_decrement_def split: if_splits)
next
  case (EvDeferredRecover pk h l env)
  with assms(1) have c: "\<not> crashed s" "leaving s \<noteq> 0"
    and s': "exec s' = fst (deferred_recover (exec s) pk h l env)"
      "started s' = started s" "leaving s' = leaving s - 1"
    by (auto split: if_splits prod.splits)
  show ?thesis
    using assms(2-6) c EvDeferredRecover
    by (cases pk) (auto simp: s' stats_deferred_recover)
next
  case EvResetStats
  with assms show ?thesis by (auto simp: ResetStats_def zero_Stats_def split: if_splits)
next
  case (EvSetRecoverHandler h)
  with assms show ?thesis by (auto simp: SetRecoverHandler_def split: if_splits)
next
  case (EvSetLogger l)
  with assms show ?thesis by (auto simp: SetLogger_def split: if_splits)
qed

lemma exec_run_inv:
  assumes "exec_run s evs = Some s'" and "resets_when_idle s evs"
    and "ActiveGoroutines (stats (exec s)) = int (started s)"
    and "TotalGoroutines (stats (exec s)) =
           CompletedCount (stats (exec s)) + PanicCount (stats (exec s)) + int (started s) + int (leaving s)"
    and "TotalGoroutines (stats (exec s)) = int n"
    and "0 \<le> CompletedCount (stats (exec s))" and "0 \<le> PanicCount (stats (exec s))"
  shows "ActiveGoroutines (stats (exec s')) = int (started s') \<and>
         TotalGoroutines (stats (exec s')) =
           CompletedCount (stats (exec s')) + PanicCount (stats (exec s')) + int (started s') + int (leaving s') \<and>
         TotalGoroutines (stats (exec s')) = int (spawned_since_reset n evs) \<and>
         0 \<le> CompletedCount (stats (exec s')) \<and> 0 \<le> PanicCount (stats (exec s'))"
  using assms
proof (induction evs arbitrary: s n)
  case Nil
  then show ?case by simp
next
  case (Cons e es)
  from Cons.prems(1) obtain s1 where s1: "exec_step s e = Some s1" and r: "exec_run s1 es = Some s'"
    by (auto split: option.splits)
  from Cons.prems(2) s1 have idle: "is_reset e \<longrightarrow> started s = 0 \<and> leaving s = 0"
    and rest: "resets_when_idle s1 es"
    by (auto split: if_splits)
  note i = exec_step_inv [OF s1 Cons.prems(3,4,5,6,7) idle]
  from Cons.IH [OF r rest i [THEN conjunct1] i [THEN conjunct2, THEN conjunct1]
      i [THEN conjunct2, THEN conjunct2, THEN conjunct1]
      i [THEN conjunct2, THEN conjunct2, THEN conjunct2, THEN conjunct1]
      i [THEN conjunct2, THEN conjunct2, THEN conjunct2, THEN conjunct2]]
  show ?case by simp
qed

text \<open>
  Claim C2, as amended. In every run of a new executor in which \<^verbatim>\<open>ResetStats\<close> is only
  called while no spawned goroutine is in flight, at every observation point
  \<^verbatim>\<open>ActiveGoroutines\<close> is not negative and \<^verbatim>\<open>CompletedCount + PanicCount\<close> is at most
  \<^verbatim>\<open>TotalGoroutines\<close>; and once all spawned goroutines have finished, \<^verbatim>\<open>ActiveGoroutines\<close>
  is 0 and \<^verbatim>\<open>CompletedCount + PanicCount\<close> equals \<^verbatim>\<open>TotalGoroutines\<close>, which is the number
  of spawns since the last \<^verbatim>\<open>ResetStats\<close> (since the creation when there was none).
\<close>

theorem ExecutionStats_invariant:
  assumes "exec_run exec_init evs = Some s" and "resets_when_idle exec_init evs"
  shows "0 \<le> ActiveGoroutines (stats (exec s)) \<and>
         CompletedCount (stats (exec s)) + PanicCount (stats (exec s)) \<le> TotalGoroutines (stats (exec s)) \<and>
         (started s = 0 \<and> leaving s = 0 \<longrightarrow>
            ActiveGoroutines (stats (exec s)) = 0 \<and>
            CompletedCount (stats (exec s)) + PanicCount (stats (exec s)) = TotalGoroutines (stats (exec s)) \<and>
            TotalGoroutines (stats (exec s)) = int (spawned_since_reset 0 evs))"
proof -
  have "ActiveGoroutines (stats (exec s)) = int (started s) \<and>
         TotalGoroutines (stats (exec s)) =
           CompletedCount (stats (exec s)) + PanicCount (stats (exec s)) + int (started s) + int (leaving s) \<and>
         TotalGoroutines (stats (exec s)) = int (spawned_since_reset 0 evs) \<and>
         0 \<le> CompletedCount (stats (exec s)) \<and> 0 \<le> PanicCount (stats (exec s))"
    by (rule exec_run_inv [OF assms])
       (simp_all add: exec_init_def NewSafeExecutor_def zero_Stats_def)
  then show ?thesis by auto
qed

text \<open>
  The theorem on a run of two spawns, of which one goroutine panics and the other returns:
  at the end nothing is in flight, two goroutines are counted in total, none is active, one
  is completed and one has panicked.
\<close>

theorem ExecutionStats_invariant_witness:
  "resets_when_idle exec_init
     [EvSpawn, EvSpawn, EvDeferredDecrement,
      EvDeferredRecover (Some (PanicValue ''test panic'')) (Some defaultRecoverHandler) (Some DefaultLogger)
        \<lparr>time_Now = 7, runtime_Stack = ''goroutine 18 [running]:'', debug_Stack = ''main.task''\<rparr>,
      EvDeferredDecrement,
      EvDeferredRecover None (Some defaultRecoverHandler) (Some DefaultLogger)
        \<lparr>time_Now = 9, runtime_Stack = ''goroutine 19 [running]:'', debug_Stack = ''main.task''\<rparr>] \<and>
   map_option (\<lambda>s. (started s, leaving s, TotalGoroutines (stats (exec s)),
                     ActiveGoroutines (stats (exec s)), CompletedCount (stats (exec s)),
                     PanicCount (stats (exec s))))
     (exec_run exec_init
       [EvSpawn, EvSpawn, EvDeferredDecrement,
        EvDeferredRecover (Some (PanicValue ''test panic'')) (Some defaultRecoverHandler) (Some DefaultLogger)
          \<lparr>time_Now = 7, runtime_Stack = ''goroutine 18 [running]:'', debug_Stack = ''main.task''\<rparr>,
        EvDeferredDecrement,
        EvDeferredRecover None (Some defaultRecoverHandler) (Some DefaultLogger)
          \<lparr>time_Now = 9, runtime_Stack = ''goroutine 19 [running]:'', debug_Stack = ''main.task''\<rparr>])
     = Some (0, 0, 2, 0, 1, 1) \<and>
   spawned_since_reset 0
     [EvSpawn, EvSpawn, EvDeferredDecrement,
      EvDeferredRecover (Some (PanicValue ''test panic'')) (Some defaultRecoverHandler) (Some DefaultLogger)
        \<lparr>time_Now = 7, runtime_Stack = ''goroutine 18 [running]:'', debug_Stack = ''main.task''\<rparr>,
      EvDeferredDecrement,
      EvDeferredRecover None (Some defaultRecoverHandler) (Some DefaultLogger)
        \<lparr>time_Now = 9, runtime_Stack = ''goroutine 19 [running]:'', debug_Stack = ''main.task''\<rparr>] = 2"
proof -
  let ?evs = "[EvSpawn, EvSpawn, EvDeferredDecrement,
      EvDeferredRecover (Some (PanicValue ''test panic'')) (Some defaultRecoverHandler) (Some DefaultLogger)
        \<lparr>time_Now = 7, runtime_Stack = ''goroutine 18 [running]:'', debug_Stack = ''main.task''\<rparr>,
      EvDeferredDecrement,
      EvDeferredRecover None (Some defaultRecoverHandler) (Some DefaultLogger)
        \<lparr>time_Now = 9, runtime_Stack = ''goroutine 19 [running]:'', debug_Stack = ''main.task''\<rparr>]"
  obtain s where s: "exec_run exec_init ?evs = Some s"
    by (simp add: exec_init_def NewSafeExecutor_def GoWithContext_spawn_def deferred_decrement_def
        deferred_recover_def recover_def handlePanic_def and_then_def call_logger_def call_handler_def
        DefaultLogger_def defaultRecoverHandler_def Let_def)
  have i: "resets_when_idle exec_init ?evs"
    by (simp add: exec_init_def NewSafeExecutor_def GoWithContext_spawn_def deferred_decrement_def
        deferred_recover_def recover_def handlePanic_def and_then_def call_logger_def call_handler_def
        DefaultLogger_def defaultRecoverHandler_def Let_def)
  have q: "started s = 0" "leaving s = 0" "PanicCount (stats (exec s)) = 1"
    using s
    by (auto simp add: exec_init_def NewSafeExecutor_def GoWithContext_spawn_def deferred_decrement_def
        deferred_recover_def recover_def handlePanic_def and_then_def call_logger_def call_handler_def
        DefaultLogger_def defaultRecoverHandler_def Let_def zero_Stats_def)
  have n: "spawned_since_reset 0 ?evs = 2" by simp
  from ExecutionStats_invariant [OF s i] q n i s show ?thesis by simp
qed

text \<open>
  Claim C2 as stated fails: \<^verbatim>\<open>ResetStats\<close> between the spawn of a goroutine and its end
  zeroes the counters, and the goroutine's deferred function then takes
  \<^verbatim>\<open>ActiveGoroutines\<close> to -1 and \<^verbatim>\<open>CompletedCount\<close> to 1 while \<^verbatim>\<open>TotalGoroutines\<close> is 0.
\<close>

theorem ExecutionStats_reset_counterexample:
  "map_option (\<lambda>s. ActiveGoroutines (stats (exec s)))
     (exec_run exec_init [EvSpawn, EvResetStats, EvDeferredDecrement]) = Some (- 1) \<and>
   map_option (\<lambda>s. (CompletedCount (stats (exec s)) + PanicCount (stats (exec s)),
                     TotalGoroutines (stats (exec s))))
     (exec_run exec_init
        [EvSpawn, EvResetStats, EvDeferredDecrement,
         EvDeferredRecover None (Some defaultRecoverHandler) (Some DefaultLogger)
           \<lparr>time_Now = 9, runtime_Stack = ''goroutine 19 [running]:'', debug_Stack = ''main.task''\<rparr>])
     = Some (1, 0)"
  by (simp add: exec_init_def NewSafeExecutor_def GoWithContext_spawn_def deferred_decrement_def
        deferred_recover_def recover_def ResetStats_def zero_Stats_def)


section \<open>Properties of the worker pool\<close>

lemma chan_ok_send:
  assumes "chan_ok c" and "send c v = Ok c'"
  shows "chan_ok c' \<and> cap c' = cap c \<and> closed c' = closed c"
  using assms by (auto simp: chan_ok_def send_def split: if_splits)

lemma chan_ok_recv_or_park:
  assumes "chan_ok c"
  shows "chan_ok (snd (recv_or_park c)) \<and> cap (snd (recv_or_park c)) = cap c \<and>
         closed (snd (recv_or_park c)) = closed c"
  using assms
  by (cases "buf c") (auto simp: chan_ok_def recv_or_park_def recv_nb_def)

lemma chan_ok_close:
  assumes "chan_ok c" and "close_chan c = Ok c'"
  shows "chan_ok c' \<and> cap c' = cap c \<and> closed c'"
  using assms by (auto simp: chan_ok_def close_chan_def split: if_splits)

lemma jobQueue_executeJob:
  "jobQueue (fst (executeJob p job ctx_done t env)) = jobQueue p"
  by (simp add: executeJob_def split: prod.splits)

lemma pstats_executeJob:
  "pstats (fst (executeJob p job ctx_done t env)) =
     (if ctx_done then pstats p else fst (executeJob_fn (pstats p) (Fn job) t))"
  by (simp add: executeJob_def split: prod.splits)

lemma pool_step_queue:
  assumes "chan_ok (jobQueue p)"
  shows "chan_ok (jobQueue (pool_step p ev)) \<and> cap (jobQueue (pool_step p ev)) = cap (jobQueue p) \<and>
         (closed (jobQueue p) \<longrightarrow> closed (jobQueue (pool_step p ev)))"
proof (cases ev)
  case (EvSubmit job)
  show ?thesis
  proof (cases "send (jobQueue p) job")
    case (Ok q)
    from chan_ok_send [OF assms Ok] Ok EvSubmit show ?thesis
      by (simp add: Submit_def send_nb_def)
  next
    case (Panic v)
    with EvSubmit assms show ?thesis by (simp add: Submit_def send_nb_def)
  next
    case Blocked
    with EvSubmit assms show ?thesis by (simp add: Submit_def send_nb_def)
  qed
next
  case (EvDispatcher now)
  from chan_ok_recv_or_park [OF assms] assms EvDispatcher show ?thesis
    by (auto simp: dispatcher_select_def dispatcher_received_def split: prod.splits option.splits)
next
  case (EvDispatcherWoken now)
  with assms show ?thesis by (simp add: dispatcher_received_def)
next
  case EvWorkerStarted
  with assms show ?thesis by (simp add: worker_started_def)
next
  case EvWorkerExited
  with assms show ?thesis by (simp add: worker_exited_def)
next
  case (EvExecuteJob job ctx_done t env)
  with assms show ?thesis by (simp add: jobQueue_executeJob)
next
  case EvStop
  with assms show ?thesis by (simp add: pool_after_def Stop_def)
next
  case EvStopGracefully_close
  show ?thesis
  proof (cases "close_chan (jobQueue p)")
    case (Ok q)
    from chan_ok_close [OF assms Ok] Ok EvStopGracefully_close show ?thesis
      by (simp add: pool_after_def StopGracefully_close_def)
  next
    case (Panic v)
    with EvStopGracefully_close assms show ?thesis
      by (simp add: pool_after_def StopGracefully_close_def)
  next
    case Blocked
    with EvStopGracefully_close assms show ?thesis
      by (simp add: pool_after_def StopGracefully_close_def)
  qed
next
  case EvStopGracefully_quit
  with assms show ?thesis by (simp add: pool_after_def StopGracefully_quit_def Stop_def)
qed

lemma pool_run_queue:
  assumes "chan_ok (jobQueue p)"
  shows "chan_ok (jobQueue (pool_run p evs)) \<and> cap (jobQueue (pool_run p evs)) = cap (jobQueue p) \<and>
         (closed (jobQueue p) \<longrightarrow> closed (jobQueue (pool_run p evs)))"
  using assms unfolding pool_run_def
proof (induction evs arbitrary: p)
  case Nil
  then show ?case by simp
next
  case (Cons ev evs)
  note s = pool_step_queue [OF Cons.prems, of ev]
  from Cons.IH [OF s [THEN conjunct1]] s show ?case by simp
qed

lemma pool_step_closed:
  assumes "closed (jobQueue p)"
  shows "closed (jobQueue (pool_step p ev))"
proof (cases ev)
  case (EvSubmit job)
  with assms show ?thesis by (simp add: Submit_def send_nb_def send_def)
next
  case (EvDispatcher now)
  with assms show ?thesis
    by (cases "buf (jobQueue p)")
       (auto simp: dispatcher_select_def dispatcher_received_def recv_or_park_def recv_nb_def)
next
  case (EvDispatcherWoken now)
  with assms show ?thesis by (simp add: dispatcher_received_def)
next
  case EvWorkerStarted
  with assms show ?thesis by (simp add: worker_started_def)
next
  case EvWorkerExited
  with assms show ?thesis by (simp add: worker_exited_def)
next
  case (EvExecuteJob job ctx_done t env)
  with assms show ?thesis by (simp add: jobQueue_executeJob)
next
  case EvStop
  with assms show ?thesis by (simp add: pool_after_def Stop_def)
next
  case EvStopGracefully_close
  with assms show ?thesis by (simp add: pool_after_def StopGracefully_close_def close_chan_def)
next
  case EvStopGracefully_quit
  with assms show ?thesis by (simp add: pool_after_def StopGracefully_quit_def Stop_def)
qed

lemma pool_run_closed:
  assumes "closed (jobQueue p)"
  shows "closed (jobQueue (pool_run p evs))"
  using assms unfolding pool_run_def
  by (induction evs arbitrary: p) (simp_all add: pool_step_closed)

lemma StopGracefully_close_closed:
  "closed (jobQueue (pool_after p (StopGracefully_close p)))"
  by (cases "closed (jobQueue p)")
     (simp_all add: pool_after_def StopGracefully_close_def close_chan_def)

lemma Submit_closed:
  assumes "closed (jobQueue p)"
  shows "Submit p job = Panic SendOnClosedChannel"
  using assms by (simp add: Submit_def send_nb_def send_def)

lemma NewPool_queue:
  assumes "NewPool config = Ok p0"
  shows "chan_ok (jobQueue p0) \<and> 0 \<le> QueueSize (case config of None \<Rightarrow> DefaultPoolConfig | Some c \<Rightarrow> c) \<and>
         cap (jobQueue p0) = nat (QueueSize (case config of None \<Rightarrow> DefaultPoolConfig | Some c \<Rightarrow> c))"
  using assms
  by (auto simp: NewPool_def Let_def make_chan_def chan_ok_def split: if_splits)

lemma NewPool_two:
  "NewPool (Some \<lparr>MaxWorkers = 1, QueueSize = 2, WorkerTimeout = 0, JobTimeout = 0\<rparr>) =
     Ok (\<lparr>executor = fst (GoWithContext_spawn (fst (GoWithContext_spawn NewSafeExecutor))),
        maxWorkers = 1, workerCount = 0,
        jobQueue = \<lparr>buf = [], cap = 2, closed = False, recvq = 0\<rparr>,
        quit_closed = False, pstats = zero_PoolStats\<rparr> :: string Pool)"
  by (simp add: NewPool_def make_chan_def Let_def eval_nat_numeral)

lemma NewPool_zero:
  "NewPool (Some \<lparr>MaxWorkers = 1, QueueSize = 0, WorkerTimeout = 0, JobTimeout = 0\<rparr>) =
     Ok (\<lparr>executor = fst (GoWithContext_spawn (fst (GoWithContext_spawn NewSafeExecutor))),
        maxWorkers = 1, workerCount = 0,
        jobQueue = \<lparr>buf = [], cap = 0, closed = False, recvq = 0\<rparr>,
        quit_closed = False, pstats = zero_PoolStats\<rparr> :: string Pool)"
  by (simp add: NewPool_def make_chan_def Let_def eval_nat_numeral)

text \<open>
  Claim C5, as amended. For a pool reached from \<^verbatim>\<open>NewPool\<close> whose job queue has not been
  closed: the queue never holds more than \<^verbatim>\<open>QueueSize\<close> jobs; if it holds fewer,
  \<^verbatim>\<open>Submit\<close> returns \<^verbatim>\<open>nil\<close> and the job is accepted, appended to the queue or, when the
  dispatcher is already waiting on the empty queue, handed to it directly; and if
  \<^verbatim>\<open>QueueSize\<close> is at least 1 and the queue holds \<^verbatim>\<open>QueueSize\<close> jobs, \<^verbatim>\<open>Submit\<close> returns
  \<^verbatim>\<open>ErrPoolFull\<close> and leaves the pool as it is. \<^verbatim>\<open>Submit\<close> never blocks.
\<close>

theorem Submit_nonblocking:
  fixes evs :: "'e PoolEvent list"
  assumes "NewPool config = Ok p0"
    and "cfg = (case config of None \<Rightarrow> DefaultPoolConfig | Some c \<Rightarrow> c)"
    and "p = pool_run p0 evs"
    and "\<not> closed (jobQueue p)"
  shows "int (length (buf (jobQueue p))) \<le> QueueSize cfg \<and>
         (int (length (buf (jobQueue p))) < QueueSize cfg \<longrightarrow>
            Submit p job =
              Ok (p\<lparr>jobQueue :=
                     (if recvq (jobQueue p) > 0
                      then (jobQueue p)\<lparr>recvq := recvq (jobQueue p) - 1\<rparr>
                      else (jobQueue p)\<lparr>buf := buf (jobQueue p) @ [job]\<rparr>)\<rparr>, None)) \<and>
         (int (length (buf (jobQueue p))) = QueueSize cfg \<and> 1 \<le> QueueSize cfg \<longrightarrow>
            Submit p job = Ok (p, Some ErrPoolFull)) \<and>
         Submit p job \<noteq> Blocked"
proof -
  note n = NewPool_queue [OF assms(1), folded assms(2)]
  from pool_run_queue [OF n [THEN conjunct1], of evs] n
  have ok: "chan_ok (jobQueue p)" and c: "cap (jobQueue p) = nat (QueueSize cfg)"
    and q: "0 \<le> QueueSize cfg"
    by (simp_all add: assms(3))
  have nb: "Submit p job \<noteq> Blocked"
    by (simp add: Submit_def send_nb_def split: go.splits prod.splits bool.splits)
  show ?thesis
    using ok c q assms(4) nb
    by (auto simp: chan_ok_def Submit_def send_nb_def send_def)
qed

text \<open>
  The theorem on a pool with \<^verbatim>\<open>QueueSize\<close> 2 whose dispatcher has not run yet: after one
  accepted job a second one is accepted, and with two jobs queued a third one is refused
  with \<^verbatim>\<open>ErrPoolFull\<close>.
\<close>

theorem Submit_nonblocking_witness:
  "NewPool (Some \<lparr>MaxWorkers = 1, QueueSize = 2, WorkerTimeout = 0, JobTimeout = 0\<rparr>) =
     Ok (\<lparr>executor = fst (GoWithContext_spawn (fst (GoWithContext_spawn NewSafeExecutor))),
        maxWorkers = 1, workerCount = 0,
        jobQueue = \<lparr>buf = [], cap = 2, closed = False, recvq = 0\<rparr>,
        quit_closed = False, pstats = zero_PoolStats\<rparr> :: string Pool) \<and>
   \<not> closed (jobQueue (pool_run
       \<lparr>executor = fst (GoWithContext_spawn (fst (GoWithContext_spawn NewSafeExecutor))),
        maxWorkers = 1, workerCount = 0,
        jobQueue = \<lparr>buf = [], cap = 2, closed = False, recvq = 0\<rparr>,
        quit_closed = False, pstats = zero_PoolStats\<rparr>
       [EvSubmit \<lparr>ID = ''job-1'', Timeout = 0, Fn = JobReturns (None :: string option)\<rparr>])) \<and>
   Submit (pool_run
       \<lparr>executor = fst (GoWithContext_spawn (fst (GoWithContext_spawn NewSafeExecutor))),
        maxWorkers = 1, workerCount = 0,
        jobQueue = \<lparr>buf = [], cap = 2, closed = False, recvq = 0\<rparr>,
        quit_closed = False, pstats = zero_PoolStats\<rparr>
       [EvSubmit \<lparr>ID = ''job-1'', Timeout = 0, Fn = JobReturns (None :: string option)\<rparr>])
     \<lparr>ID = ''job-2'', Timeout = 0, Fn = JobReturns (None :: string option)\<rparr> =
     Ok (\<lparr>executor = fst (GoWithContext_spawn (fst (GoWithContext_spawn NewSafeExecutor))),
        maxWorkers = 1, workerCount = 0,
        jobQueue = \<lparr>buf = [\<lparr>ID = ''job-1'', Timeout = 0, Fn = JobReturns (None :: string option)\<rparr>,
                     \<lparr>ID = ''job-2'', Timeout = 0, Fn = JobReturns (None :: string option)\<rparr>], cap = 2, closed = False, recvq = 0\<rparr>,
        quit_closed = False, pstats = zero_PoolStats\<rparr>, None) \<and>
   Submit (pool_run
       \<lparr>executor = fst (GoWithContext_spawn (fst (GoWithContext_spawn NewSafeExecutor))),
        maxWorkers = 1, workerCount = 0,
        jobQueue = \<lparr>buf = [], cap = 2, closed = False, recvq = 0\<rparr>,
        quit_closed = False, pstats = zero_PoolStats\<rparr>
       [EvSubmit \<lparr>ID = ''job-1'', Timeout = 0, Fn = JobReturns (None :: string option)\<rparr>,
        EvSubmit \<lparr>ID = ''job-2'', Timeout = 0, Fn = JobReturns (None :: string option)\<rparr>])
     \<lparr>ID = ''job-3'', Timeout = 0, Fn = JobReturns (None :: string option)\<rparr> =
     Ok (\<lparr>executor = fst (GoWithContext_spawn (fst (GoWithContext_spawn NewSafeExecutor))),
        maxWorkers = 1, workerCount = 0,
        jobQueue = \<lparr>buf = [\<lparr>ID = ''job-1'', Timeout = 0, Fn = JobReturns (None :: string option)\<rparr>,
                     \<lparr>ID = ''job-2'', Timeout = 0, Fn = JobReturns (None :: string option)\<rparr>], cap = 2, closed = False, recvq = 0\<rparr>,
        quit_closed = False, pstats = zero_PoolStats\<rparr>, Some ErrPoolFull)"
proof -
  have r1: "pool_run
       \<lparr>executor = fst (GoWithContext_spawn (fst (GoWithContext_spawn NewSafeExecutor))),
        maxWorkers = 1, workerCount = 0,
        jobQueue = \<lparr>buf = [], cap = 2, closed = False, recvq = 0\<rparr>,
        quit_closed = False, pstats = zero_PoolStats\<rparr>
       [EvSubmit \<lparr>ID = ''job-1'', Timeout = 0, Fn = JobReturns (None :: string option)\<rparr>] =
      \<lparr>executor = fst (GoWithContext_spawn (fst (GoWithContext_spawn NewSafeExecutor))),
        maxWorkers = 1, workerCount = 0,
        jobQueue = \<lparr>buf = [\<lparr>ID = ''job-1'', Timeout = 0, Fn = JobReturns (None :: string option)\<rparr>], cap = 2, closed = False, recvq = 0\<rparr>,
        quit_closed = False, pstats = zero_PoolStats\<rparr>"
    by (simp add: pool_run_def Submit_def send_nb_def send_def)
  have r2: "pool_run
       \<lparr>executor = fst (GoWithContext_spawn (fst (GoWithContext_spawn NewSafeExecutor))),
        maxWorkers = 1, workerCount = 0,
        jobQueue = \<lparr>buf = [], cap = 2, closed = False, recvq = 0\<rparr>,
        quit_closed = False, pstats = zero_PoolStats\<rparr>
       [EvSubmit \<lparr>ID = ''job-1'', Timeout = 0, Fn = JobReturns (None :: string option)\<rparr>,
        EvSubmit \<lparr>ID = ''job-2'', Timeout = 0, Fn = JobReturns (None :: string option)\<rparr>] =
      \<lparr>executor = fst (GoWithContext_spawn (fst (GoWithContext_spawn NewSafeExecutor))),
        maxWorkers = 1, workerCount = 0,
        jobQueue = \<lparr>buf = [\<lparr>ID = ''job-1'', Timeout = 0, Fn = JobReturns (None :: string option)\<rparr>,
                     \<lparr>ID = ''job-2'', Timeout = 0, Fn = JobReturns (None :: string option)\<rparr>], cap = 2, closed = False, recvq = 0\<rparr>,
        quit_closed = False, pstats = zero_PoolStats\<rparr>"
    by (simp add: pool_run_def Submit_def send_nb_def send_def)
  note a = Submit_nonblocking [OF NewPool_two refl r1 [symmetric],
      where job = "\<lparr>ID = ''job-2'', Timeout = 0, Fn = JobReturns (None :: string option)\<rparr>"]
  note b = Submit_nonblocking [OF NewPool_two refl r2 [symmetric],
      where job = "\<lparr>ID = ''job-3'', Timeout = 0, Fn = JobReturns (None :: string option)\<rparr>"]
  have 1: "Submit
       \<lparr>executor = fst (GoWithContext_spawn (fst (GoWithContext_spawn NewSafeExecutor))),
        maxWorkers = 1, workerCount = 0,
        jobQueue = \<lparr>buf = [\<lparr>ID = ''job-1'', Timeout = 0, Fn = JobReturns (None :: string option)\<rparr>], cap = 2, closed = False, recvq = 0\<rparr>,
        quit_closed = False, pstats = zero_PoolStats\<rparr>
     \<lparr>ID = ''job-2'', Timeout = 0, Fn = JobReturns (None :: string option)\<rparr> =
     Ok (\<lparr>executor = fst (GoWithContext_spawn (fst (GoWithContext_spawn NewSafeExecutor))),
        maxWorkers = 1, workerCount = 0,
        jobQueue = \<lparr>buf = [\<lparr>ID = ''job-1'', Timeout = 0, Fn = JobReturns (None :: string option)\<rparr>,
                     \<lparr>ID = ''job-2'', Timeout = 0, Fn = JobReturns (None :: string option)\<rparr>], cap = 2, closed = False, recvq = 0\<rparr>,
        quit_closed = False, pstats = zero_PoolStats\<rparr>, None)"
    using a by simp
  have 2: "Submit
       \<lparr>executor = fst (GoWithContext_spawn (fst (GoWithContext_spawn NewSafeExecutor))),
        maxWorkers = 1, workerCount = 0,
        jobQueue = \<lparr>buf = [\<lparr>ID = ''job-1'', Timeout = 0, Fn = JobReturns (None :: string option)\<rparr>,
                     \<lparr>ID = ''job-2'', Timeout = 0, Fn = JobReturns (None :: string option)\<rparr>], cap = 2, closed = False, recvq = 0\<rparr>,
        quit_closed = False, pstats = zero_PoolStats\<rparr>
     \<lparr>ID = ''job-3'', Timeout = 0, Fn = JobReturns (None :: string option)\<rparr> =
     Ok (\<lparr>executor = fst (GoWithContext_spawn (fst (GoWithContext_spawn NewSafeExecutor))),
        maxWorkers = 1, workerCount = 0,
        jobQueue = \<lparr>buf = [\<lparr>ID = ''job-1'', Timeout = 0, Fn = JobReturns (None :: string option)\<rparr>,
                     \<lparr>ID = ''job-2'', Timeout = 0, Fn = JobReturns (None :: string option)\<rparr>], cap = 2, closed = False, recvq = 0\<rparr>,
        quit_closed = False, pstats = zero_PoolStats\<rparr>, Some ErrPoolFull)"
    using b by simp
  show ?thesis
    unfolding r1 r2 using NewPool_two 1 2 by simp
qed

text \<open>
  Claim C5 as stated fails in two ways. After \<^verbatim>\<open>StopGracefully\<close> has closed the job queue
  of a pool with \<^verbatim>\<open>QueueSize\<close> 2, the queue holds no job, and \<^verbatim>\<open>Submit\<close> panics instead
  of returning \<^verbatim>\<open>nil\<close>. And in a pool with \<^verbatim>\<open>QueueSize\<close> 0 whose dispatcher waits in its
  receive, the queue holds \<^verbatim>\<open>QueueSize\<close> jobs, and \<^verbatim>\<open>Submit\<close> returns \<^verbatim>\<open>nil\<close> instead of
  \<^verbatim>\<open>ErrPoolFull\<close>: the job goes to the dispatcher directly.
\<close>

theorem Submit_nonblocking_counterexample:
  "NewPool (Some \<lparr>MaxWorkers = 1, QueueSize = 2, WorkerTimeout = 0, JobTimeout = 0\<rparr>) =
     Ok (\<lparr>executor = fst (GoWithContext_spawn (fst (GoWithContext_spawn NewSafeExecutor))),
        maxWorkers = 1, workerCount = 0,
        jobQueue = \<lparr>buf = [], cap = 2, closed = False, recvq = 0\<rparr>,
        quit_closed = False, pstats = zero_PoolStats\<rparr> :: string Pool) \<and>
   int (length (buf (jobQueue (pool_after
       \<lparr>executor = fst (GoWithContext_spawn (fst (GoWithContext_spawn NewSafeExecutor))),
        maxWorkers = 1, workerCount = 0,
        jobQueue = \<lparr>buf = [], cap = 2, closed = False, recvq = 0\<rparr>,
        quit_closed = False, pstats = zero_PoolStats\<rparr>
       (StopGracefully_close
       \<lparr>executor = fst (GoWithContext_spawn (fst (GoWithContext_spawn NewSafeExecutor))),
        maxWorkers = 1, workerCount = 0,
        jobQueue = \<lparr>buf = [], cap = 2, closed = False, recvq = 0\<rparr>,
        quit_closed = False, pstats = zero_PoolStats\<rparr>))))) < 2 \<and>
   Submit (pool_after
       \<lparr>executor = fst (GoWithContext_spawn (fst (GoWithContext_spawn NewSafeExecutor))),
        maxWorkers = 1, workerCount = 0,
        jobQueue = \<lparr>buf = [], cap = 2, closed = False, recvq = 0\<rparr>,
        quit_closed = False, pstats = zero_PoolStats\<rparr>
       (StopGracefully_close
       \<lparr>executor = fst (GoWithContext_spawn (fst (GoWithContext_spawn NewSafeExecutor))),
        maxWorkers = 1, workerCount = 0,
        jobQueue = \<lparr>buf = [], cap = 2, closed = False, recvq = 0\<rparr>,
        quit_closed = False, pstats = zero_PoolStats\<rparr>))
     \<lparr>ID = ''job-1'', Timeout = 0, Fn = JobReturns (None :: string option)\<rparr> = Panic SendOnClosedChannel \<and>
   NewPool (Some \<lparr>MaxWorkers = 1, QueueSize = 0, WorkerTimeout = 0, JobTimeout = 0\<rparr>) =
     Ok (\<lparr>executor = fst (GoWithContext_spawn (fst (GoWithContext_spawn NewSafeExecutor))),
        maxWorkers = 1, workerCount = 0,
        jobQueue = \<lparr>buf = [], cap = 0, closed = False, recvq = 0\<rparr>,
        quit_closed = False, pstats = zero_PoolStats\<rparr> :: string Pool) \<and>
   int (length (buf (jobQueue (dispatcher_select
       \<lparr>executor = fst (GoWithContext_spawn (fst (GoWithContext_spawn NewSafeExecutor))),
        maxWorkers = 1, workerCount = 0,
        jobQueue = \<lparr>buf = [], cap = 0, closed = False, recvq = 0\<rparr>,
        quit_closed = False, pstats = zero_PoolStats\<rparr> 5)))) = 0 \<and>
   Submit (dispatcher_select
       \<lparr>executor = fst (GoWithContext_spawn (fst (GoWithContext_spawn NewSafeExecutor))),
        maxWorkers = 1, workerCount = 0,
        jobQueue = \<lparr>buf = [], cap = 0, closed = False, recvq = 0\<rparr>,
        quit_closed = False, pstats = zero_PoolStats\<rparr> 5)
     \<lparr>ID = ''job-1'', Timeout = 0, Fn = JobReturns (None :: string option)\<rparr> =
     Ok (\<lparr>executor = fst (GoWithContext_spawn (fst (GoWithContext_spawn NewSafeExecutor))),
        maxWorkers = 1, workerCount = 0,
        jobQueue = \<lparr>buf = [], cap = 0, closed = False, recvq = 0\<rparr>,
        quit_closed = False, pstats = zero_PoolStats\<rparr>, None)"
  using NewPool_two NewPool_zero
  by (simp add: pool_after_def StopGracefully_close_def close_chan_def Submit_def send_nb_def
      send_def dispatcher_select_def recv_or_park_def recv_nb_def)

lemma quo64_nonneg:
  assumes "0 \<le> a" and "0 < b" and "a < 2 ^ 63"
  shows "quo64 a b = a div b"
proof -
  have "a div b \<le> a div 1"
    using assms(1,2) by (intro zdiv_mono2) simp_all
  then have d: "0 \<le> a div b" "a div b \<le> a"
    using assms(1,2) by (simp_all add: pos_imp_zdiv_nonneg_iff)
  have "sgn a * sgn b * (\<bar>a\<bar> div \<bar>b\<bar>) = a div b"
    using assms(1,2) by (cases "a = 0") (simp_all add: sgn_if)
  moreover have "in_int64 (a div b)"
    using d assms(3) by (simp add: in_int64_def)
  ultimately show ?thesis by (simp add: quo64_def wrap64_id)
qed

lemma executeJob_fn_average:
  assumes "n = CompletedJobs ps + FailedJobs ps" and "0 \<le> n" and "n + 2 < 2 ^ 63"
    and "0 \<le> AverageJobTime ps" and "0 \<le> t" and "AverageJobTime ps * (n + 1) + t < 2 ^ 63"
  shows "AverageJobTime (fst (executeJob_fn ps (JobReturns err) t)) =
           (AverageJobTime ps * (n + 1) + t) div (n + 2)"
proof -
  have t: "CompletedJobs ps + (FailedJobs ps + 1) = n + 1"
    "CompletedJobs ps + 1 + FailedJobs ps = n + 1"
    by (simp_all add: assms(1))
  have m: "0 \<le> AverageJobTime ps * (n + 1)" using assms(2,4) by simp
  have r1: "wrap64 (n + 1) = n + 1"
    using assms(2,3) by (intro wrap64_id) (simp add: in_int64_def)
  have r2: "wrap64 (2 + n) = n + 2"
    using assms(2,3) by (intro trans [OF wrap64_id]) (simp_all add: in_int64_def)
  have r3: "wrap64 (AverageJobTime ps * (n + 1)) = AverageJobTime ps * (n + 1)"
    using m assms(5,6) by (intro wrap64_id) (simp add: in_int64_def)
  have r4: "wrap64 (AverageJobTime ps * (n + 1) + t) = AverageJobTime ps * (n + 1) + t"
    using m assms(5,6) by (intro wrap64_id) (simp add: in_int64_def)
  have q: "quo64 (AverageJobTime ps * (n + 1) + t) (n + 2) = (AverageJobTime ps * (n + 1) + t) div (n + 2)"
    using m assms(2,5,6) by (intro quo64_nonneg) simp_all
  show ?thesis
    using assms(2)
    by (cases err) (simp_all add: executeJob_fn_def Let_def t r1 r2 r3 r4 q)
qed


text \<open>
  Claim C6 against the code. On a new pool, where no job has been averaged and the average
  is 0, the claim's formula \<open>(avg * n + new) / (n + 1)\<close> with \<open>n = 0\<close> gives the duration of
  the first job, 100. \<^verbatim>\<open>executeJob\<close> sets \<^verbatim>\<open>AverageJobTime\<close> to 50: it takes for \<open>n\<close> the
  number of finished jobs after it has counted the job that just finished. A second job of
  the same duration gives 66.
\<close>

theorem executeJob_average_first_job:
  "NewPool (Some \<lparr>MaxWorkers = 1, QueueSize = 2, WorkerTimeout = 0, JobTimeout = 0\<rparr>) =
     Ok (\<lparr>executor = fst (GoWithContext_spawn (fst (GoWithContext_spawn NewSafeExecutor))),
        maxWorkers = 1, workerCount = 0,
        jobQueue = \<lparr>buf = [], cap = 2, closed = False, recvq = 0\<rparr>,
        quit_closed = False, pstats = zero_PoolStats\<rparr> :: string Pool) \<and>
   AverageJobTime (pstats (fst (executeJob
       \<lparr>executor = fst (GoWithContext_spawn (fst (GoWithContext_spawn NewSafeExecutor))),
        maxWorkers = 1, workerCount = 0,
        jobQueue = \<lparr>buf = [], cap = 2, closed = False, recvq = 0\<rparr>,
        quit_closed = False, pstats = zero_PoolStats\<rparr>
       \<lparr>ID = ''job-1'', Timeout = 0, Fn = JobReturns (None :: string option)\<rparr> False 100
       \<lparr>time_Now = 7, runtime_Stack = ''goroutine 18 [running]:'', debug_Stack = ''main.task''\<rparr>))) = 50 \<and>
   AverageJobTime (pstats (fst (executeJob (fst (executeJob
       \<lparr>executor = fst (GoWithContext_spawn (fst (GoWithContext_spawn NewSafeExecutor))),
        maxWorkers = 1, workerCount = 0,
        jobQueue = \<lparr>buf = [], cap = 2, closed = False, recvq = 0\<rparr>,
        quit_closed = False, pstats = zero_PoolStats\<rparr>
       \<lparr>ID = ''job-1'', Timeout = 0, Fn = JobReturns (None :: string option)\<rparr> False 100
       \<lparr>time_Now = 7, runtime_Stack = ''goroutine 18 [running]:'', debug_Stack = ''main.task''\<rparr>))
       \<lparr>ID = ''job-2'', Timeout = 0, Fn = JobReturns (None :: string option)\<rparr> False 100
       \<lparr>time_Now = 7, runtime_Stack = ''goroutine 18 [running]:'', debug_Stack = ''main.task''\<rparr>))) = 66"
  using NewPool_two
  by (simp add: pstats_executeJob executeJob_fn_def zero_PoolStats_def Let_def wrap64_def quo64_def)

text \<open>
  Claim C10. Once \<^verbatim>\<open>StopGracefully\<close> has closed the job queue (whether its close succeeded
  or the queue was closed before), and whatever happens to the pool afterwards, every
  \<^verbatim>\<open>Submit\<close> panics with "send on closed channel": it returns neither \<^verbatim>\<open>nil\<close> nor
  \<^verbatim>\<open>ErrPoolFull\<close>. The panic is raised in the caller's goroutine and leaves the pool, with
  its executor's counters and handler, as it was: the executor does not see it.
\<close>

theorem Submit_after_StopGracefully_panics:
  "Submit (pool_run (pool_after p (StopGracefully_close p)) evs) job = Panic SendOnClosedChannel \<and>
   pool_step (pool_run (pool_after p (StopGracefully_close p)) evs) (EvSubmit job) =
     pool_run (pool_after p (StopGracefully_close p)) evs"
proof -
  have "closed (jobQueue (pool_run (pool_after p (StopGracefully_close p)) evs))"
    by (rule pool_run_closed [OF StopGracefully_close_closed])
  then have "Submit (pool_run (pool_after p (StopGracefully_close p)) evs) job = Panic SendOnClosedChannel"
    by (rule Submit_closed)
  then show ?thesis by simp
qed


end
